theory Spec2Isabelle
  imports Complex_Main
begin

section \<open>Numbers, rectangles and the random source\<close>

text \<open>
  The game is JavaScript on the Phaser 3 engine. A JavaScript number is modelled as a
  mathematical real. Rounding to a double is modelled in \<open>Phaser.Math.Between\<close>: there
  the rounding of the sum can carry it up to the next whole number before \<open>Math.floor\<close>
  is taken, so that the result exceeds \<open>max\<close>. Elsewhere the arithmetic is that of the
  reals. \<open>Math.random()\<close> is modelled as a stream
  of draws; the type \<open>draw\<close> holds the values \<open>Math.random()\<close> can return, the reals
  from 0 (included) to 1 (excluded), read with \<open>Rep_draw\<close>; the doubles among them
  reach up to \<open>1 - 1 / 2 ^ 53\<close>.

  The engine functions the game calls are modelled from their documented behaviour:
  \<^item> \<open>Phaser.Math.FloatBetween(min, max) = Math.random() * (max - min) + min\<close>
  \<^item> \<open>Phaser.Math.Between(min, max) = Math.floor(Math.random() * (max - min + 1) + min)\<close>
  \<^item> \<open>Phaser.Math.Distance.Between(x1, y1, x2, y2) = Math.sqrt(dx * dx + dy * dy)\<close>
  \<^item> \<open>Phaser.Geom.Rectangle.Contains(rect, x, y)\<close>: false when the width or the height
    is not positive, otherwise the closed test on all four sides.
\<close>

type_synonym point = "real \<times> real"

typedef draw = "{u::real. 0 \<le> u \<and> u < 1}"
  by (rule exI [of _ 0]) simp

definition FloatBetween :: "draw \<Rightarrow> real \<Rightarrow> real \<Rightarrow> real" where
  "FloatBetween u mn mx = Rep_draw u * (mx - mn) + mn"

text \<open>
  Rounding of a real to the nearest double (IEEE 754 binary64, ties to even), for
  magnitudes below 2 to the power 1024: the doubles around \<open>x\<close> are the multiples of
  \<open>ulp x\<close>, which is 2 to the power \<open>e - 52\<close> when \<open>\<bar>x\<bar>\<close> lies between 2 to the
  power \<open>e\<close> (included) and twice that (excluded), with \<open>e\<close> not below -1022.
\<close>

definition roundTiesToEven :: "real \<Rightarrow> int" where
  "roundTiesToEven y =
     (let f = \<lfloor>y\<rfloor>; d = y - real_of_int f
      in if d < 1 / 2 then f else if 1 / 2 < d then f + 1 else if even f then f else f + 1)"

definition binade :: "real \<Rightarrow> int" where
  "binade x = max (- 1022) \<lfloor>log 2 \<bar>x\<bar>\<rfloor>"

definition ulp :: "real \<Rightarrow> real" where
  "ulp x = 2 powr (real_of_int (binade x) - 52)"

definition binary64 :: "real \<Rightarrow> real" where
  "binary64 x = (if x = 0 then 0 else ulp x * real_of_int (roundTiesToEven (x / ulp x)))"

text \<open>
  \<open>Phaser.Math.Between\<close>: the product is rounded, then the sum, then \<open>Math.floor\<close> is
  taken. (\<open>max - min + 1\<close> is exact for the whole numbers the game passes.)
\<close>

definition Between :: "draw \<Rightarrow> real \<Rightarrow> real \<Rightarrow> int" where
  "Between u mn mx = \<lfloor>binary64 (binary64 (Rep_draw u * (mx - mn + 1)) + mn)\<rfloor>"

definition DistanceBetween :: "real \<Rightarrow> real \<Rightarrow> real \<Rightarrow> real \<Rightarrow> real" where
  "DistanceBetween x1 y1 x2 y2 =
     (let dx = x1 - x2; dy = y1 - y2 in sqrt (dx * dx + dy * dy))"

record Rectangle =
  rectX :: real
  rectY :: real
  width :: real
  height :: real

definition mkRectangle :: "real \<Rightarrow> real \<Rightarrow> real \<Rightarrow> real \<Rightarrow> Rectangle" where
  "mkRectangle x y w h = \<lparr>rectX = x, rectY = y, width = w, height = h\<rparr>"

definition left :: "Rectangle \<Rightarrow> real" where "left r = rectX r"
definition top_of :: "Rectangle \<Rightarrow> real" where "top_of r = rectY r"
definition right :: "Rectangle \<Rightarrow> real" where "right r = rectX r + width r"
definition bottom :: "Rectangle \<Rightarrow> real" where "bottom r = rectY r + height r"

definition Contains :: "Rectangle \<Rightarrow> real \<Rightarrow> real \<Rightarrow> bool" where
  "Contains rect x y =
     (if width rect \<le> 0 \<or> height rect \<le> 0 then False
      else rectX rect \<le> x \<and> rectX rect + width rect \<ge> x \<and>
           rectY rect \<le> y \<and> rectY rect + height rect \<ge> y)"

section \<open>Constants and asteroid categories\<close>

datatype categoryName = XS | S | M

record category =
  minSize :: real
  maxSize :: real
  hp :: int

fun ASTEROID_CATEGORIES :: "categoryName \<Rightarrow> category" where
  "ASTEROID_CATEGORIES XS = \<lparr>minSize = 10, maxSize = 15, hp = 1\<rparr>"
| "ASTEROID_CATEGORIES S = \<lparr>minSize = 16, maxSize = 24, hp = 2\<rparr>"
| "ASTEROID_CATEGORIES M = \<lparr>minSize = 25, maxSize = 40, hp = 3\<rparr>"

definition ACTIVE_ASTEROID_CATEGORIES :: "categoryName list" where
  "ACTIVE_ASTEROID_CATEGORIES = [XS, S, M]"

definition ASTEROID_JAGGEDNESS :: real where "ASTEROID_JAGGEDNESS = 4 / 10"
definition ASTEROID_MIN_VERTICES :: real where "ASTEROID_MIN_VERTICES = 6"
definition ASTEROID_MAX_VERTICES :: real where "ASTEROID_MAX_VERTICES = 11"
definition ASTEROID_MIN_SPEED :: real where "ASTEROID_MIN_SPEED = 30"
definition ASTEROID_MAX_SPEED :: real where "ASTEROID_MAX_SPEED = 80"
definition ASTEROID_MAX_ROTATION_SPEED :: real where "ASTEROID_MAX_ROTATION_SPEED = 60"
definition ASTEROID_BOUNCE :: real where "ASTEROID_BOUNCE = 8 / 10"
definition SPAWN_BUFFER :: real where "SPAWN_BUFFER = 100"
definition CLEANUP_BUFFER :: real where "CLEANUP_BUFFER = 400"
definition BULLET_CLEANUP_BUFFER :: real where "BULLET_CLEANUP_BUFFER = 50"
definition SPAWN_CHECK_RADIUS_MULTIPLIER :: real where "SPAWN_CHECK_RADIUS_MULTIPLIER = 12 / 10"
definition SPAWN_MAX_RETRIES :: nat where "SPAWN_MAX_RETRIES = 15"
definition ASTEROID_HIT_FILL_COLOR :: nat where "ASTEROID_HIT_FILL_COLOR = 16777215"
definition ASTEROID_HIT_FILL_ALPHA :: real where "ASTEROID_HIT_FILL_ALPHA = 4 / 10"
definition ASTEROID_INITIAL_COUNT :: nat where "ASTEROID_INITIAL_COUNT = 20"
definition PLAYER_INITIAL_SAFE_ZONE_RADIUS :: real where "PLAYER_INITIAL_SAFE_ZONE_RADIUS = 150"
definition PLAYER_SPEED_THRESHOLD_FOR_BIAS :: real where "PLAYER_SPEED_THRESHOLD_FOR_BIAS = 50"
definition SPAWN_BIAS_STRENGTH :: real where "SPAWN_BIAS_STRENGTH = 6 / 10"
definition PROACTIVE_GENERATION_RADIUS_MULTIPLIER :: real where
  "PROACTIVE_GENERATION_RADIUS_MULTIPLIER = 25 / 10"
definition TARGET_ASTEROIDS_PER_QUADRANT :: int where "TARGET_ASTEROIDS_PER_QUADRANT = 4"
definition PROACTIVE_INNER_BUFFER :: real where "PROACTIVE_INNER_BUFFER = SPAWN_BUFFER * (15 / 10)"

text \<open>
  \<open>Phaser.Utils.Array.GetRandom(array)\<close>: the element at index
  \<open>Math.floor(Math.random() * array.length)\<close>, or null when there is none.
\<close>

definition GetRandom :: "draw \<Rightarrow> 'a list \<Rightarrow> 'a option" where
  "GetRandom u xs =
     (let randomIndex = \<lfloor>Rep_draw u * real (length xs)\<rfloor>
      in if 0 \<le> randomIndex \<and> nat randomIndex < length xs
         then Some (xs ! nat randomIndex) else None)"

section \<open>Game objects\<close>

text \<open>
  An asteroid is a Phaser graphics object: a position, the \<open>active\<close> flag, the physics
  body the group attaches (absent when the engine gave none, and after destruction),
  the data bag written with \<open>setData\<close> (a key never written reads as undefined, here
  \<open>None\<close>), and what is currently drawn on it.
\<close>

record body =
  circleRadius :: real
  velocityX :: real
  velocityY :: real
  angularVelocity :: real
  bounce :: real

record drawing =
  outline :: "point list"
  fill :: "(nat \<times> real) option"

record asteroid =
  posX :: real
  posY :: real
  active :: bool
  physBody :: "body option"
  dataCategory :: "categoryName option"
  dataHitPoints :: "int option"
  dataVisualSize :: "real option"
  dataPoints :: "point list option"
  dataIsHit :: "bool option"
  shown :: "drawing option"

section \<open>The overlap check of the spawn functions\<close>

text \<open>
  \<open>existingAsteroid.getData('visualSize') || category.minSize\<close>: the recorded size, or
  the minimum size of the candidate's category when the size is missing or 0.
\<close>

definition existingSizeOr :: "asteroid \<Rightarrow> category \<Rightarrow> real" where
  "existingSizeOr e cat =
     (case dataVisualSize e of
        None \<Rightarrow> minSize cat
      | Some s \<Rightarrow> if s = 0 then minSize cat else s)"

text \<open>
  The callback of \<open>asteroidsGroup.children.iterate\<close> in \<open>spawnAsteroid\<close> and
  \<open>spawnAsteroidInRegion\<close>, iterated over the children in order; a child slot may be
  empty (\<open>None\<close>). The result is the final value of the variable \<open>overlaps\<close>.
\<close>

fun overlapsFiltered :: "real \<Rightarrow> category \<Rightarrow> real \<Rightarrow> real \<Rightarrow> asteroid option list \<Rightarrow> bool" where
  "overlapsFiltered visualSize cat spawnX spawnY [] = False"
| "overlapsFiltered visualSize cat spawnX spawnY (None # rest) =
     overlapsFiltered visualSize cat spawnX spawnY rest"
| "overlapsFiltered visualSize cat spawnX spawnY (Some e # rest) =
     (if physBody e = None \<or> \<not> active e
      then overlapsFiltered visualSize cat spawnX spawnY rest
      else
        let checkDist = (visualSize + existingSizeOr e cat) * SPAWN_CHECK_RADIUS_MULTIPLIER * (15 / 10)
        in if \<bar>posX e - spawnX\<bar> > checkDist \<or> \<bar>posY e - spawnY\<bar> > checkDist
           then overlapsFiltered visualSize cat spawnX spawnY rest
           else
             let existingSize = existingSizeOr e cat;
                 requiredDist = (visualSize + existingSize) * SPAWN_CHECK_RADIUS_MULTIPLIER;
                 currentDist = DistanceBetween spawnX spawnY (posX e) (posY e)
             in if currentDist < requiredDist then True
                else overlapsFiltered visualSize cat spawnX spawnY rest)"

text \<open>The same callback in \<open>spawnAsteroidInView\<close>, which has no coarse check.\<close>

fun overlapsExact :: "real \<Rightarrow> category \<Rightarrow> real \<Rightarrow> real \<Rightarrow> asteroid option list \<Rightarrow> bool" where
  "overlapsExact visualSize cat spawnX spawnY [] = False"
| "overlapsExact visualSize cat spawnX spawnY (None # rest) =
     overlapsExact visualSize cat spawnX spawnY rest"
| "overlapsExact visualSize cat spawnX spawnY (Some e # rest) =
     (if physBody e = None \<or> \<not> active e
      then overlapsExact visualSize cat spawnX spawnY rest
      else
        let existingSize = existingSizeOr e cat;
            requiredDist = (visualSize + existingSize) * SPAWN_CHECK_RADIUS_MULTIPLIER;
            currentDist = DistanceBetween spawnX spawnY (posX e) (posY e)
        in if currentDist < requiredDist then True
           else overlapsExact visualSize cat spawnX spawnY rest)"

text \<open>The coarse test alone: does the callback skip this pair before measuring?\<close>

definition coarseSkip :: "real \<Rightarrow> category \<Rightarrow> real \<Rightarrow> real \<Rightarrow> asteroid \<Rightarrow> bool" where
  "coarseSkip visualSize cat spawnX spawnY e =
     (let checkDist = (visualSize + existingSizeOr e cat) * SPAWN_CHECK_RADIUS_MULTIPLIER * (15 / 10)
      in \<bar>posX e - spawnX\<bar> > checkDist \<or> \<bar>posY e - spawnY\<bar> > checkDist)"

text \<open>A circle as a live asteroid of the group, for the statements about pairs.\<close>

definition circleAsteroid :: "real \<Rightarrow> real \<Rightarrow> real \<Rightarrow> asteroid" where
  "circleAsteroid x y r =
     \<lparr>posX = x, posY = y, active = True,
      physBody = Some \<lparr>circleRadius = r * (9 / 10), velocityX = 0, velocityY = 0,
                       angularVelocity = 0, bounce = ASTEROID_BOUNCE\<rparr>,
      dataCategory = None, dataHitPoints = None, dataVisualSize = Some r,
      dataPoints = None, dataIsHit = None, shown = None\<rparr>"

section \<open>The polygon generator\<close>

text \<open>
  \<open>generateAsteroidPoints(avgRadius, numVertices)\<close>. The loop draws two numbers per
  vertex, the angle offset first; \<open>pos\<close> is the number of draws made before the call.
  The variants of the function in the sources differ only in the fraction of the sector
  width that bounds the angle offset (0.3, 0.2 and 0.15), the parameter \<open>angleVariation\<close>.
  \<open>vertexAngle\<close> and \<open>vertexRadius\<close> are the variables \<open>angle\<close> and
  \<open>radius\<close> of iteration \<open>i\<close>.
\<close>

definition angleStepOf :: "int \<Rightarrow> real" where
  "angleStepOf numVertices = (pi * 2) / real_of_int numVertices"

definition vertexAngle :: "real \<Rightarrow> (nat \<Rightarrow> draw) \<Rightarrow> nat \<Rightarrow> int \<Rightarrow> nat \<Rightarrow> real" where
  "vertexAngle angleVariation rnd pos numVertices i =
     (let angleStep = angleStepOf numVertices;
          baseAngle = real i * angleStep
      in baseAngle + FloatBetween (rnd (pos + 2 * i))
                       (- angleStep * angleVariation) (angleStep * angleVariation))"

definition vertexRadius :: "(nat \<Rightarrow> draw) \<Rightarrow> nat \<Rightarrow> real \<Rightarrow> nat \<Rightarrow> real" where
  "vertexRadius rnd pos avgRadius i =
     (let radiusMin = avgRadius * (1 - ASTEROID_JAGGEDNESS);
          radiusMax = avgRadius * (1 + ASTEROID_JAGGEDNESS)
      in FloatBetween (rnd (pos + 2 * i + 1)) radiusMin radiusMax)"

definition generateAsteroidPointsWith ::
    "real \<Rightarrow> (nat \<Rightarrow> draw) \<Rightarrow> nat \<Rightarrow> real \<Rightarrow> int \<Rightarrow> point list" where
  "generateAsteroidPointsWith angleVariation rnd pos avgRadius numVertices =
     map (\<lambda>i. let angle = vertexAngle angleVariation rnd pos numVertices i;
                   radius = vertexRadius rnd pos avgRadius i
               in (cos angle * radius, sin angle * radius))
         [0 ..< nat numVertices]"

text \<open>The variant the spawn functions of the proactive version call (0.3).\<close>

definition generateAsteroidPoints :: "(nat \<Rightarrow> draw) \<Rightarrow> nat \<Rightarrow> real \<Rightarrow> int \<Rightarrow> point list" where
  "generateAsteroidPoints = generateAsteroidPointsWith (3 / 10)"

text \<open>
  \<open>drawAsteroidShape(graphics, points, fillStyle = null, fillAlpha = 1.0)\<close>: nothing
  happens without points or with fewer than three; otherwise the object is cleared and
  shows the outline, filled when a fill style is given.
\<close>

definition drawAsteroidShape :: "asteroid \<Rightarrow> point list option \<Rightarrow> (nat \<times> real) option \<Rightarrow> asteroid" where
  "drawAsteroidShape graphics points fillStyle =
     (case points of
        None \<Rightarrow> graphics
      | Some pts \<Rightarrow>
          if length pts < 3 then graphics
          else graphics\<lparr>shown := Some \<lparr>outline = pts, fill = fillStyle\<rparr>\<rparr>)"

section \<open>The world\<close>

text \<open>
  The module-level variables and the scene. Game objects live in a store indexed by
  handle, so that a closure holding an object (the flash-revert callback) still reaches
  it after the group has dropped it; a destroyed object stays in the store, inactive.
  \<open>bodyAttach h\<close> says whether the physics engine gives the object with handle \<open>h\<close> a
  body when the group adds it. \<open>timers\<close> are the pending \<open>delayedCall\<close> callbacks: the
  asteroid handle and the points the closure captured.
\<close>

record bullet =
  bulletX :: real
  bulletY :: real
  bulletActive :: bool
  bulletHasBody :: bool

record player =
  playerX :: real
  playerY :: real
  playerActive :: bool
  playerHasBody :: bool
  playerSpeed :: real
  playerVelAngle :: real

record world =
  camera :: "Rectangle option"
  scaleWidth :: real
  scaleHeight :: real
  thePlayer :: "player option"
  objects :: "nat \<Rightarrow> asteroid option"
  asteroidsGroup :: "nat list"
  bulletObjects :: "nat \<Rightarrow> bullet option"
  bulletsGroup :: "nat list"
  nextHandle :: nat
  random :: "nat \<Rightarrow> draw"
  drawn :: nat
  bodyAttach :: "nat \<Rightarrow> bool"
  timers :: "(nat \<times> point list) list"
  particleEmitter :: bool
  explosions :: "point list"

definition children :: "world \<Rightarrow> asteroid option list" where
  "children w = map (objects w) (asteroidsGroup w)"

text \<open>\<open>scene.add.graphics()\<close>: a fresh, active, empty graphics object at the origin.\<close>

definition newGraphics :: asteroid where
  "newGraphics =
     \<lparr>posX = 0, posY = 0, active = True, physBody = None,
      dataCategory = None, dataHitPoints = None, dataVisualSize = None,
      dataPoints = None, dataIsHit = None, shown = None\<rparr>"

definition newBody :: body where
  "newBody = \<lparr>circleRadius = 0, velocityX = 0, velocityY = 0, angularVelocity = 0,
              bounce = ASTEROID_BOUNCE\<rparr>"

text \<open>
  The four statements that open the creation block of every spawn function:
  \<open>scene.add.graphics()\<close>, \<open>drawAsteroidShape(asteroidGraphics, points)\<close>,
  \<open>asteroidsGroup.add(asteroidGraphics)\<close> and \<open>setPosition(spawnX, spawnY)\<close>.
  Returns the new world, the handle of the object and the object as it then is.
\<close>

definition addAsteroidGraphics ::
    "world \<Rightarrow> point list \<Rightarrow> real \<Rightarrow> real \<Rightarrow> world \<times> nat \<times> asteroid" where
  "addAsteroidGraphics w points spawnX spawnY =
     (let h = nextHandle w;
          g = drawAsteroidShape newGraphics (Some points) None;
          g' = g\<lparr>physBody := (if bodyAttach w h then Some newBody else None),
                 posX := spawnX, posY := spawnY\<rparr>
      in (w\<lparr>objects := (objects w)(h := Some g'),
             asteroidsGroup := asteroidsGroup w @ [h],
             nextHandle := Suc h\<rparr>, h, g'))"

text \<open>
  Destruction of a game object (\<open>destroy()\<close>): it becomes inactive and loses its body,
  its data and its drawing. \<open>asteroidsGroup.remove(asteroid, true, true)\<close> and
  \<open>asteroidGraphics.destroy()\<close> both take the object out of the group and destroy it.
\<close>

definition destroyObject :: "asteroid \<Rightarrow> asteroid" where
  "destroyObject a =
     a\<lparr>active := False, physBody := None, dataCategory := None, dataHitPoints := None,
       dataVisualSize := None, dataPoints := None, dataIsHit := None, shown := None\<rparr>"

definition removeAsteroid :: "world \<Rightarrow> nat \<Rightarrow> world" where
  "removeAsteroid w h =
     w\<lparr>objects := (objects w)(h := map_option destroyObject (objects w h)),
       asteroidsGroup := removeAll h (asteroidsGroup w)\<rparr>"

definition destroyBullet :: "world \<Rightarrow> nat \<Rightarrow> world" where
  "destroyBullet w b =
     w\<lparr>bulletObjects := (bulletObjects w)
          (b := map_option (\<lambda>blt. blt\<lparr>bulletActive := False, bulletHasBody := False\<rparr>) (bulletObjects w b)),
       bulletsGroup := removeAll b (bulletsGroup w)\<rparr>"

text \<open>The \<open>setData\<close> calls that end the creation block, and the body setup before them.\<close>

definition setAsteroidData :: "asteroid \<Rightarrow> categoryName \<Rightarrow> int \<Rightarrow> real \<Rightarrow> point list \<Rightarrow> asteroid" where
  "setAsteroidData g categoryName initialHp visualSize points =
     g\<lparr>dataCategory := Some categoryName, dataHitPoints := Some initialHp,
       dataVisualSize := Some visualSize, dataPoints := Some points,
       dataIsHit := Some False\<rparr>"

definition setupBody :: "body \<Rightarrow> real \<Rightarrow> real \<Rightarrow> real \<Rightarrow> real \<Rightarrow> body" where
  "setupBody b visualSize angle speed rotation =
     (let colliderRadius = visualSize * (9 / 10)
      in b\<lparr>circleRadius := colliderRadius,
           velocityX := cos angle * speed, velocityY := sin angle * speed,
           angularVelocity := rotation, bounce := ASTEROID_BOUNCE\<rparr>)"

section \<open>Region-constrained spawn\<close>

text \<open>
  The retry loop of \<open>spawnAsteroidInRegion\<close>. Each attempt draws two numbers. The
  result is the spot found (or none), the number of attempts made, and the number of
  draws made so far.
\<close>

function regionRetry ::
    "(nat \<Rightarrow> draw) \<Rightarrow> asteroid option list \<Rightarrow> Rectangle \<Rightarrow> Rectangle \<Rightarrow> real \<Rightarrow> category
     \<Rightarrow> nat \<Rightarrow> nat \<Rightarrow> point option \<times> nat \<times> nat" where
  "regionRetry rnd existing worldView regionBounds visualSize cat retry pos =
     (if retry < SPAWN_MAX_RETRIES then
        let spawnX = FloatBetween (rnd pos) (left regionBounds) (right regionBounds);
            spawnY = FloatBetween (rnd (pos + 1)) (top_of regionBounds) (bottom regionBounds)
        in if Contains worldView spawnX spawnY
           then regionRetry rnd existing worldView regionBounds visualSize cat (retry + 1) (pos + 2)
           else if overlapsFiltered visualSize cat spawnX spawnY existing
           then regionRetry rnd existing worldView regionBounds visualSize cat (retry + 1) (pos + 2)
           else (Some (spawnX, spawnY), retry + 1, pos + 2)
      else (None, retry, pos))"
  by pat_completeness auto
termination
  by (relation "measure (\<lambda>(rnd, existing, worldView, regionBounds, visualSize, cat, retry, pos).
                  SPAWN_MAX_RETRIES - retry)") auto

declare regionRetry.simps [simp del]

text \<open>
  \<open>spawnAsteroidInRegion(scene, regionBounds)\<close>: the new world, the created object or
  null (\<open>None\<close>), and, as a trace, the number of attempts the retry loop made.
\<close>

definition spawnAsteroidInRegionTraced :: "world \<Rightarrow> Rectangle \<Rightarrow> world \<times> nat option \<times> nat" where
  "spawnAsteroidInRegionTraced w regionBounds =
     (case camera w of
        None \<Rightarrow> (w, None, 0)
      | Some worldView \<Rightarrow>
         (case GetRandom (random w (drawn w)) ACTIVE_ASTEROID_CATEGORIES of
            None \<Rightarrow> (w\<lparr>drawn := drawn w + 1\<rparr>, None, 0)
          | Some categoryName \<Rightarrow>
             let cat = ASTEROID_CATEGORIES categoryName;
                 visualSize = real_of_int (Between (random w (drawn w + 1)) (minSize cat) (maxSize cat));
                 initialHp = hp cat;
                 numVertices = Between (random w (drawn w + 2)) ASTEROID_MIN_VERTICES ASTEROID_MAX_VERTICES
             in (case regionRetry (random w) (children w) worldView regionBounds visualSize cat 0
                        (drawn w + 3) of
                   (None, attempts, pos) \<Rightarrow> (w\<lparr>drawn := pos\<rparr>, None, attempts)
                 | (Some (spawnX, spawnY), attempts, pos) \<Rightarrow>
                     let points = generateAsteroidPoints (random w) pos visualSize numVertices;
                         pos1 = pos + 2 * nat numVertices;
                         (w1, h, g) = addAsteroidGraphics w points spawnX spawnY
                     in (case physBody g of
                           Some b \<Rightarrow>
                             let angle = FloatBetween (random w pos1) 0 (pi * 2);
                                 speed = real_of_int (Between (random w (pos1 + 1))
                                           (ASTEROID_MIN_SPEED * (8 / 10)) (ASTEROID_MAX_SPEED * (11 / 10)));
                                 rotation = FloatBetween (random w (pos1 + 2))
                                           (- ASTEROID_MAX_ROTATION_SPEED) ASTEROID_MAX_ROTATION_SPEED;
                                 g' = setAsteroidData (g\<lparr>physBody := Some (setupBody b visualSize angle speed rotation)\<rparr>)
                                        categoryName initialHp visualSize points
                             in (w1\<lparr>objects := (objects w1)(h := Some g'), drawn := pos1 + 3\<rparr>, Some h, attempts)
                         | None \<Rightarrow> (removeAsteroid (w1\<lparr>drawn := pos1\<rparr>) h, None, attempts)))))"

definition spawnAsteroidInRegion :: "world \<Rightarrow> Rectangle \<Rightarrow> world \<times> nat option" where
  "spawnAsteroidInRegion w regionBounds =
     (let (w', result, attempts) = spawnAsteroidInRegionTraced w regionBounds in (w', result))"

text \<open>
  A candidate position is rejected by the retry loop when the viewport contains it or
  the overlap check fires.
\<close>

definition rejectedAt :: "asteroid option list \<Rightarrow> Rectangle \<Rightarrow> real \<Rightarrow> category \<Rightarrow> real \<Rightarrow> real \<Rightarrow> bool" where
  "rejectedAt existing worldView visualSize cat x y \<longleftrightarrow>
     Contains worldView x y \<or> overlapsFiltered visualSize cat x y existing"

text \<open>A draw in the middle of the range, for concrete runs.\<close>

definition midDraw :: draw where
  "midDraw = Abs_draw (1 / 2)"

text \<open>
  A world for concrete runs: an 800 by 600 game right after the scene is set up, the
  player at rest in the centre, no asteroid yet, every draw in the middle of the range,
  and an engine that attaches a body to every object.
\<close>

definition startWorld :: world where
  "startWorld =
     \<lparr>camera = Some (mkRectangle 0 0 800 600), scaleWidth = 800, scaleHeight = 600,
      thePlayer = Some \<lparr>playerX = 400, playerY = 300, playerActive = True,
                        playerHasBody = True, playerSpeed = 0, playerVelAngle = 0\<rparr>,
      objects = (\<lambda>h. None), asteroidsGroup = [],
      bulletObjects = (\<lambda>h. None), bulletsGroup = [],
      nextHandle = 0, random = (\<lambda>n. midDraw), drawn = 0,
      bodyAttach = (\<lambda>h. True), timers = [], particleEmitter = True, explosions = []\<rparr>"

text \<open>Two regions for concrete runs: one to the right of the view, one inside it.\<close>

definition farRegion :: Rectangle where
  "farRegion = mkRectangle 1000 0 1000 750"

definition seenRegion :: Rectangle where
  "seenRegion = mkRectangle 100 100 100 100"

text \<open>
  The largest double below 1, which \<open>Math.random()\<close> may return, and the start world
  in which the third draw, the one for the number of vertices, is that value.
\<close>

definition topDraw :: draw where
  "topDraw = Abs_draw (1 - 1 / 2 ^ 53)"

definition topVerticesWorld :: world where
  "topVerticesWorld = startWorld\<lparr>random := (\<lambda>n. if n = 2 then topDraw else midDraw)\<rparr>"

section \<open>The density controller\<close>

text \<open>
  \<open>checkAndPopulateDistantAreas(scene)\<close>. The rectangles it builds from the view and the
  player position:
\<close>

definition genBoundsOf :: "Rectangle \<Rightarrow> player \<Rightarrow> Rectangle" where
  "genBoundsOf worldView p =
     (let viewWidth = width worldView;
          viewHeight = height worldView;
          genRadiusX = viewWidth * PROACTIVE_GENERATION_RADIUS_MULTIPLIER * (5 / 10);
          genRadiusY = viewHeight * PROACTIVE_GENERATION_RADIUS_MULTIPLIER * (5 / 10)
      in mkRectangle (playerX p - genRadiusX) (playerY p - genRadiusY)
           (genRadiusX * 2) (genRadiusY * 2))"

definition innerBoundsOf :: "Rectangle \<Rightarrow> Rectangle" where
  "innerBoundsOf worldView =
     (let viewWidth = width worldView;
          viewHeight = height worldView
      in mkRectangle (left worldView - PROACTIVE_INNER_BUFFER) (top_of worldView - PROACTIVE_INNER_BUFFER)
           (viewWidth + PROACTIVE_INNER_BUFFER * 2) (viewHeight + PROACTIVE_INNER_BUFFER * 2))"

text \<open>The array \<open>quadrants\<close>: Top-Left, Top-Right, Bottom-Left, Bottom-Right.\<close>

definition quadrantsOf :: "Rectangle \<Rightarrow> player \<Rightarrow> Rectangle list" where
  "quadrantsOf worldView p =
     (let viewWidth = width worldView;
          viewHeight = height worldView;
          genRadiusX = viewWidth * PROACTIVE_GENERATION_RADIUS_MULTIPLIER * (5 / 10);
          genRadiusY = viewHeight * PROACTIVE_GENERATION_RADIUS_MULTIPLIER * (5 / 10);
          genBounds = genBoundsOf worldView p;
          quadWidth = genRadiusX;
          quadHeight = genRadiusY
      in [mkRectangle (left genBounds) (top_of genBounds) quadWidth quadHeight,
          mkRectangle (playerX p) (top_of genBounds) quadWidth quadHeight,
          mkRectangle (left genBounds) (playerY p) quadWidth quadHeight,
          mkRectangle (playerX p) (playerY p) quadWidth quadHeight])"

text \<open>
  The inner \<open>for\<close> loop of the counting callback: the index of the first quadrant, from
  index \<open>i\<close> on, whose rectangle contains the point (the loop breaks there).
\<close>

fun findQuadrant :: "Rectangle list \<Rightarrow> real \<Rightarrow> real \<Rightarrow> nat \<Rightarrow> nat option" where
  "findQuadrant [] x y i = None"
| "findQuadrant (q # qs) x y i =
     (if Contains q x y then Some i else findQuadrant qs x y (Suc i))"

text \<open>The counting callback, applied to one child; \<open>counts\<close> is \<open>asteroidCounts\<close>.\<close>

definition countAsteroid ::
    "Rectangle \<Rightarrow> Rectangle \<Rightarrow> Rectangle list \<Rightarrow> int list \<Rightarrow> asteroid option \<Rightarrow> int list" where
  "countAsteroid innerBounds genBounds quadrants counts child =
     (case child of
        None \<Rightarrow> counts
      | Some a \<Rightarrow>
          if \<not> active a \<or> physBody a = None then counts
          else if Contains innerBounds (posX a) (posY a) then counts
          else if Contains genBounds (posX a) (posY a)
          then (case findQuadrant quadrants (posX a) (posY a) 0 of
                  Some i \<Rightarrow> counts[i := counts ! i + 1]
                | None \<Rightarrow> counts)
          else counts)"

definition asteroidCountsOf :: "Rectangle \<Rightarrow> Rectangle \<Rightarrow> Rectangle list \<Rightarrow> asteroid option list \<Rightarrow> int list" where
  "asteroidCountsOf innerBounds genBounds quadrants existing =
     foldl (countAsteroid innerBounds genBounds quadrants) [0, 0, 0, 0] existing"

text \<open>
  The spawn loops. As a trace, every call of \<open>spawnAsteroidInRegion\<close> is recorded with
  the index of the quadrant it is made for, the rectangle passed and the result.
  \<open>spawnNeeded\<close> is the loop over \<open>j\<close>, with the number of iterations left.
\<close>

type_synonym spawnCall = "nat \<times> Rectangle \<times> nat option"

fun spawnNeeded :: "world \<Rightarrow> Rectangle \<Rightarrow> nat \<Rightarrow> nat \<Rightarrow> world \<times> spawnCall list" where
  "spawnNeeded w bounds i 0 = (w, [])"
| "spawnNeeded w bounds i (Suc n) =
     (let (w1, result) = spawnAsteroidInRegion w bounds;
          (w2, calls) = spawnNeeded w1 bounds i n
      in (w2, (i, bounds, result) # calls))"

function fillQuadrants :: "world \<Rightarrow> Rectangle list \<Rightarrow> int list \<Rightarrow> nat \<Rightarrow> world \<times> spawnCall list" where
  "fillQuadrants w quadrants asteroidCounts i =
     (if i < length quadrants then
        let count = asteroidCounts ! i;
            needed = TARGET_ASTEROIDS_PER_QUADRANT - count
        in if needed > 0
           then let (w1, calls1) = spawnNeeded w (quadrants ! i) i (nat needed);
                    (w2, calls2) = fillQuadrants w1 quadrants asteroidCounts (i + 1)
                in (w2, calls1 @ calls2)
           else fillQuadrants w quadrants asteroidCounts (i + 1)
      else (w, []))"
  by pat_completeness auto
termination
  by (relation "measure (\<lambda>(w, quadrants, asteroidCounts, i). length quadrants - i)") auto

declare fillQuadrants.simps [simp del]

definition checkAndPopulateDistantAreasTraced :: "world \<Rightarrow> world \<times> spawnCall list" where
  "checkAndPopulateDistantAreasTraced w =
     (case camera w of
        None \<Rightarrow> (w, [])
      | Some worldView \<Rightarrow>
         (case thePlayer w of
            None \<Rightarrow> (w, [])
          | Some p \<Rightarrow>
             if \<not> playerHasBody p then (w, [])
             else
               let genBounds = genBoundsOf worldView p;
                   innerBounds = innerBoundsOf worldView;
                   quadrants = quadrantsOf worldView p;
                   asteroidCounts = asteroidCountsOf innerBounds genBounds quadrants (children w)
               in fillQuadrants w quadrants asteroidCounts 0))"

definition checkAndPopulateDistantAreas :: "world \<Rightarrow> world" where
  "checkAndPopulateDistantAreas w = fst (checkAndPopulateDistantAreasTraced w)"

text \<open>
  What the counting callback counts for quadrant \<open>i\<close>: a live child (active, with a
  body) outside the inner rectangle, in the rectangle of quadrant \<open>i\<close> and in the
  rectangle of no quadrant before it. A point on the border shared by two quadrants
  lies in both rectangles and counts for the earlier one.
\<close>

definition countedIn :: "Rectangle \<Rightarrow> Rectangle list \<Rightarrow> nat \<Rightarrow> asteroid option \<Rightarrow> bool" where
  "countedIn innerBounds quadrants i child =
     (case child of
        None \<Rightarrow> False
      | Some a \<Rightarrow>
          active a \<and> physBody a \<noteq> None
          \<and> \<not> Contains innerBounds (posX a) (posY a)
          \<and> Contains (quadrants ! i) (posX a) (posY a)
          \<and> (\<forall>j < i. \<not> Contains (quadrants ! j) (posX a) (posY a)))"

text \<open>
  The start world with one live asteroid of size 20 at (-300, -300): outside the inner
  rectangle, inside the top-left quadrant of the generation window.
\<close>

definition oneAsteroidWorld :: world where
  "oneAsteroidWorld =
     startWorld\<lparr>objects := (\<lambda>h. if h = 0 then Some (circleAsteroid (- 300) (- 300) 20) else None),
                asteroidsGroup := [0], nextHandle := 1\<rparr>"

text \<open>
  In the words of the specification, a quadrant \<^emph>\<open>contains\<close> a live asteroid outside the
  inner rectangle when its rectangle contains the asteroid's position; on a shared
  border that is true of both quadrants.
\<close>

definition quadrantContains :: "Rectangle \<Rightarrow> Rectangle \<Rightarrow> asteroid option \<Rightarrow> bool" where
  "quadrantContains innerBounds quadrant child =
     (case child of
        None \<Rightarrow> False
      | Some a \<Rightarrow>
          active a \<and> physBody a \<noteq> None
          \<and> \<not> Contains innerBounds (posX a) (posY a)
          \<and> Contains quadrant (posX a) (posY a))"

text \<open>
  The start world with one live asteroid of size 20 at (400, -300): outside the inner
  rectangle, on the border between the top-left and the top-right quadrant.
\<close>

definition borderWorld :: world where
  "borderWorld =
     startWorld\<lparr>objects := (\<lambda>h. if h = 0 then Some (circleAsteroid 400 (- 300) 20) else None),
                asteroidsGroup := [0], nextHandle := 1\<rparr>"

section \<open>Off-screen edge spawn\<close>

text \<open>
  Engine functions used by \<open>spawnAsteroid\<close>:
  \<^item> \<open>Phaser.Math.RadToDeg(r) = r * (180 / pi)\<close>
  \<^item> \<open>Phaser.Math.Angle.ShortestBetween(a1, a2)\<close>: with \<open>d = a2 - a1\<close>, 0 when \<open>d\<close> is 0,
    otherwise \<open>d - Math.floor((d + 180) / 360) * 360\<close>
  \<^item> \<open>Phaser.Math.Angle.Between(x1, y1, x2, y2) = Math.atan2(y2 - y1, x2 - x1)\<close>, the
    argument of the complex number \<open>(x2 - x1) + (y2 - y1) i\<close>, 0 at the origin.
  The player's \<open>body.velocity.length()\<close> and \<open>body.velocity.angle()\<close> are the fields
  \<open>playerSpeed\<close> and \<open>playerVelAngle\<close>.
\<close>

definition RadToDeg :: "real \<Rightarrow> real" where
  "RadToDeg r = r * (180 / pi)"

definition ShortestBetween :: "real \<Rightarrow> real \<Rightarrow> real" where
  "ShortestBetween angle1 angle2 =
     (let difference = angle2 - angle1
      in if difference = 0 then 0
         else let times = \<lfloor>(difference - (- 180)) / 360\<rfloor>
              in difference - real_of_int times * 360)"

definition AngleBetween :: "real \<Rightarrow> real \<Rightarrow> real \<Rightarrow> real \<Rightarrow> real" where
  "AngleBetween x1 y1 x2 y2 = Arg (Complex (x2 - x1) (y2 - y1))"

text \<open>
  The weighted choice of the edge: the loop over the four weights, from index \<open>i\<close> on,
  with the threshold left; \<open>edge\<close> is kept when no weight exceeds the threshold.
\<close>

fun pickWeighted :: "real list \<Rightarrow> real \<Rightarrow> int \<Rightarrow> int \<Rightarrow> int" where
  "pickWeighted [] randomThreshold i edge = edge"
| "pickWeighted (wt # weights) randomThreshold i edge =
     (if randomThreshold < wt then i
      else pickWeighted weights (randomThreshold - wt) (i + 1) edge)"

definition edgeWeights :: "real \<Rightarrow> real list" where
  "edgeWeights velAngle =
     (let degPlayerAngle = RadToDeg velAngle;
          diffRight = ShortestBetween degPlayerAngle 0;
          diffDown = ShortestBetween degPlayerAngle 90;
          diffLeft = ShortestBetween degPlayerAngle 180;
          diffUp = ShortestBetween degPlayerAngle (- 90);
          biasAmount = 1 + SPAWN_BIAS_STRENGTH * 4
      in [if \<bar>diffUp\<bar> \<le> 45 then 1 * biasAmount else 1,
          if \<bar>diffRight\<bar> \<le> 45 then 1 * biasAmount else 1,
          if \<bar>diffDown\<bar> \<le> 45 then 1 * biasAmount else 1,
          if \<bar>diffLeft\<bar> \<le> 45 then 1 * biasAmount else 1])"

text \<open>
  The edge and the number of draws made once it is chosen: the default edge is drawn
  first; a player with a body moving faster than the threshold costs one more draw.
\<close>

definition chooseEdge :: "world \<Rightarrow> nat \<Rightarrow> int \<times> nat" where
  "chooseEdge w pos =
     (let edge = Between (random w pos) 0 3
      in case thePlayer w of
           None \<Rightarrow> (edge, pos + 1)
         | Some p \<Rightarrow>
             if playerHasBody p \<and> playerSpeed p > PLAYER_SPEED_THRESHOLD_FOR_BIAS
             then let weights = edgeWeights (playerVelAngle p);
                      totalWeight = foldl (+) 0 weights;
                      randomThreshold = Rep_draw (random w (pos + 1)) * totalWeight
                  in (pickWeighted weights randomThreshold 0 edge, pos + 2)
             else (edge, pos + 1))"

text \<open>
  The \<open>switch (edge)\<close> of the retry loop. The edge is always one of 0, 1, 2, 3, so
  the last branch is case 3.
\<close>

definition edgeCandidate :: "(nat \<Rightarrow> draw) \<Rightarrow> Rectangle \<Rightarrow> real \<Rightarrow> int \<Rightarrow> nat \<Rightarrow> point" where
  "edgeCandidate rnd worldView visualSize edge pos =
     (if edge = 0 then
        (FloatBetween (rnd pos) (left worldView - SPAWN_BUFFER) (right worldView + SPAWN_BUFFER),
         top_of worldView - SPAWN_BUFFER - Rep_draw (rnd (pos + 1)) * visualSize)
      else if edge = 1 then
        (right worldView + SPAWN_BUFFER + Rep_draw (rnd pos) * visualSize,
         FloatBetween (rnd (pos + 1)) (top_of worldView - SPAWN_BUFFER) (bottom worldView + SPAWN_BUFFER))
      else if edge = 2 then
        (FloatBetween (rnd pos) (left worldView - SPAWN_BUFFER) (right worldView + SPAWN_BUFFER),
         bottom worldView + SPAWN_BUFFER + Rep_draw (rnd (pos + 1)) * visualSize)
      else
        (left worldView - SPAWN_BUFFER - Rep_draw (rnd pos) * visualSize,
         FloatBetween (rnd (pos + 1)) (top_of worldView - SPAWN_BUFFER) (bottom worldView + SPAWN_BUFFER)))"

function edgeRetry ::
    "(nat \<Rightarrow> draw) \<Rightarrow> asteroid option list \<Rightarrow> Rectangle \<Rightarrow> real \<Rightarrow> category \<Rightarrow> int
     \<Rightarrow> nat \<Rightarrow> nat \<Rightarrow> point option \<times> nat" where
  "edgeRetry rnd existing worldView visualSize cat edge retry pos =
     (if retry < SPAWN_MAX_RETRIES then
        let (spawnX, spawnY) = edgeCandidate rnd worldView visualSize edge pos
        in if overlapsFiltered visualSize cat spawnX spawnY existing
           then edgeRetry rnd existing worldView visualSize cat edge (retry + 1) (pos + 2)
           else (Some (spawnX, spawnY), pos + 2)
      else (None, pos))"
  by pat_completeness auto
termination
  by (relation "measure (\<lambda>(rnd, existing, worldView, visualSize, cat, edge, retry, pos).
                  SPAWN_MAX_RETRIES - retry)") auto

declare edgeRetry.simps [simp del]

text \<open>\<open>spawnAsteroid(scene)\<close>.\<close>

definition spawnAsteroid :: "world \<Rightarrow> world" where
  "spawnAsteroid w =
     (case camera w of
        None \<Rightarrow> w
      | Some worldView \<Rightarrow>
         (case GetRandom (random w (drawn w)) ACTIVE_ASTEROID_CATEGORIES of
            None \<Rightarrow> w\<lparr>drawn := drawn w + 1\<rparr>
          | Some categoryName \<Rightarrow>
             let cat = ASTEROID_CATEGORIES categoryName;
                 visualSize = real_of_int (Between (random w (drawn w + 1)) (minSize cat) (maxSize cat));
                 initialHp = hp cat;
                 numVertices = Between (random w (drawn w + 2)) ASTEROID_MIN_VERTICES ASTEROID_MAX_VERTICES;
                 (edge, pos0) = chooseEdge w (drawn w + 3)
             in (case edgeRetry (random w) (children w) worldView visualSize cat edge 0 pos0 of
                   (None, pos) \<Rightarrow> w\<lparr>drawn := pos\<rparr>
                 | (Some (spawnX, spawnY), pos) \<Rightarrow>
                     let points = generateAsteroidPoints (random w) pos visualSize numVertices;
                         pos1 = pos + 2 * nat numVertices;
                         (w1, h, g) = addAsteroidGraphics w points spawnX spawnY
                     in (case physBody g of
                           Some b \<Rightarrow>
                             let targetX = FloatBetween (random w pos1) (left worldView) (right worldView);
                                 targetY = FloatBetween (random w (pos1 + 1)) (top_of worldView) (bottom worldView);
                                 angle = AngleBetween spawnX spawnY targetX targetY;
                                 speed = real_of_int (Between (random w (pos1 + 2))
                                           ASTEROID_MIN_SPEED ASTEROID_MAX_SPEED);
                                 rotation = FloatBetween (random w (pos1 + 3))
                                           (- ASTEROID_MAX_ROTATION_SPEED) ASTEROID_MAX_ROTATION_SPEED;
                                 g' = setAsteroidData (g\<lparr>physBody := Some (setupBody b visualSize angle speed rotation)\<rparr>)
                                        categoryName initialHp visualSize points
                             in w1\<lparr>objects := (objects w1)(h := Some g'), drawn := pos1 + 4\<rparr>
                         | None \<Rightarrow> removeAsteroid (w1\<lparr>drawn := pos1\<rparr>) h))))"

section \<open>In-view scatter spawn\<close>

text \<open>
  The retry loop of \<open>spawnAsteroidInView\<close>, which runs \<open>SPAWN_MAX_RETRIES * 2\<close> times:
  a candidate closer to the player's start than the safe-zone radius is skipped before
  the overlap check.
\<close>

function viewRetry ::
    "(nat \<Rightarrow> draw) \<Rightarrow> asteroid option list \<Rightarrow> real \<Rightarrow> real \<Rightarrow> real \<Rightarrow> category
     \<Rightarrow> nat \<Rightarrow> nat \<Rightarrow> point option \<times> nat" where
  "viewRetry rnd existing spawnAreaWidth spawnAreaHeight visualSize cat retry pos =
     (if retry < SPAWN_MAX_RETRIES * 2 then
        let playerStartX = spawnAreaWidth / 2;
            playerStartY = spawnAreaHeight / 2;
            margin = visualSize;
            spawnX = FloatBetween (rnd pos) margin (spawnAreaWidth - margin);
            spawnY = FloatBetween (rnd (pos + 1)) margin (spawnAreaHeight - margin);
            distFromPlayer = DistanceBetween spawnX spawnY playerStartX playerStartY
        in if distFromPlayer < PLAYER_INITIAL_SAFE_ZONE_RADIUS
           then viewRetry rnd existing spawnAreaWidth spawnAreaHeight visualSize cat (retry + 1) (pos + 2)
           else if overlapsExact visualSize cat spawnX spawnY existing
           then viewRetry rnd existing spawnAreaWidth spawnAreaHeight visualSize cat (retry + 1) (pos + 2)
           else (Some (spawnX, spawnY), pos + 2)
      else (None, pos))"
  by pat_completeness auto
termination
  by (relation "measure (\<lambda>(rnd, existing, spawnAreaWidth, spawnAreaHeight, visualSize, cat, retry, pos).
                  SPAWN_MAX_RETRIES * 2 - retry)") auto

declare viewRetry.simps [simp del]

text \<open>\<open>spawnAsteroidInView(scene)\<close>. Without a spot it calls \<open>spawnAsteroid\<close> and returns.\<close>

definition spawnAsteroidInView :: "world \<Rightarrow> world" where
  "spawnAsteroidInView w =
     (case camera w of
        None \<Rightarrow> w
      | Some cam \<Rightarrow>
         (case GetRandom (random w (drawn w)) ACTIVE_ASTEROID_CATEGORIES of
            None \<Rightarrow> w\<lparr>drawn := drawn w + 1\<rparr>
          | Some categoryName \<Rightarrow>
             let spawnAreaWidth = scaleWidth w;
                 spawnAreaHeight = scaleHeight w;
                 cat = ASTEROID_CATEGORIES categoryName;
                 visualSize = real_of_int (Between (random w (drawn w + 1)) (minSize cat) (maxSize cat));
                 initialHp = hp cat;
                 numVertices = Between (random w (drawn w + 2)) ASTEROID_MIN_VERTICES ASTEROID_MAX_VERTICES
             in (case viewRetry (random w) (children w) spawnAreaWidth spawnAreaHeight visualSize cat 0
                        (drawn w + 3) of
                   (None, pos) \<Rightarrow> spawnAsteroid (w\<lparr>drawn := pos\<rparr>)
                 | (Some (spawnX, spawnY), pos) \<Rightarrow>
                     let points = generateAsteroidPoints (random w) pos visualSize numVertices;
                         pos1 = pos + 2 * nat numVertices;
                         (w1, h, g) = addAsteroidGraphics w points spawnX spawnY
                     in (case physBody g of
                           Some b \<Rightarrow>
                             let angle = FloatBetween (random w pos1) 0 (pi * 2);
                                 speed = real_of_int (Between (random w (pos1 + 1))
                                           (ASTEROID_MIN_SPEED * (5 / 10)) (ASTEROID_MAX_SPEED * (8 / 10)));
                                 rotation = FloatBetween (random w (pos1 + 2))
                                           (- ASTEROID_MAX_ROTATION_SPEED) ASTEROID_MAX_ROTATION_SPEED;
                                 g' = setAsteroidData (g\<lparr>physBody := Some (setupBody b visualSize angle speed rotation)\<rparr>)
                                        categoryName initialHp visualSize points
                             in w1\<lparr>objects := (objects w1)(h := Some g'), drawn := pos1 + 3\<rparr>
                         | None \<Rightarrow> removeAsteroid (w1\<lparr>drawn := pos1\<rparr>) h))))"

text \<open>The loop of \<open>create\<close> that makes the initial asteroids, with the number of calls left.\<close>

fun initialSpawning :: "world \<Rightarrow> nat \<Rightarrow> world" where
  "initialSpawning w 0 = w"
| "initialSpawning w (Suc n) = initialSpawning (spawnAsteroidInView w) n"

section \<open>Collision handlers, the flash revert and cleanup\<close>

text \<open>
  The callback that \<open>handleBulletAsteroidCollision\<close> hands to \<open>scene.time.delayedCall\<close>;
  the closure holds the asteroid and the points. A missing \<open>hitPoints\<close> value compares
  false with \<open>> 0\<close>.
\<close>

definition flashRevertCallback :: "world \<Rightarrow> nat \<Rightarrow> point list \<Rightarrow> world" where
  "flashRevertCallback w a points =
     (case objects w a of
        None \<Rightarrow> w
      | Some asteroid \<Rightarrow>
          if active asteroid \<and> (case dataHitPoints asteroid of None \<Rightarrow> False | Some n \<Rightarrow> n > 0)
          then w\<lparr>objects := (objects w)
                  (a := Some ((drawAsteroidShape asteroid (Some points) None)\<lparr>dataIsHit := Some False\<rparr>))\<rparr>
          else w)"

text \<open>
  The same callback in the first version of \<open>main.js\<close>, which tests only that the
  asteroid is active.
\<close>

definition flashRevertCallbackFirst :: "world \<Rightarrow> nat \<Rightarrow> point list \<Rightarrow> world" where
  "flashRevertCallbackFirst w a points =
     (case objects w a of
        None \<Rightarrow> w
      | Some asteroid \<Rightarrow>
          if active asteroid
          then w\<lparr>objects := (objects w)
                  (a := Some ((drawAsteroidShape asteroid (Some points) None)\<lparr>dataIsHit := Some False\<rparr>))\<rparr>
          else w)"

text \<open>
  \<open>handleBulletAsteroidCollision(bullet, asteroid)\<close>, on the handles of the two objects.
  \<open>!isHit\<close> holds unless the flag is true; the points are truthy when present.
\<close>

definition handleBulletAsteroidCollision :: "world \<Rightarrow> nat \<Rightarrow> nat \<Rightarrow> world" where
  "handleBulletAsteroidCollision w b a =
     (case bulletObjects w b of
        None \<Rightarrow> w
      | Some bullet \<Rightarrow>
         (case objects w a of
            None \<Rightarrow> w
          | Some asteroid \<Rightarrow>
             if \<not> bulletActive bullet \<or> \<not> active asteroid \<or> physBody asteroid = None then w
             else
               let w1 = destroyBullet w b;
                   points = dataPoints asteroid;
                   isHit = dataIsHit asteroid
               in (case dataHitPoints asteroid of
                     None \<Rightarrow> removeAsteroid w1 a
                   | Some hp0 \<Rightarrow>
                       let currentHp = hp0 - 1;
                           asteroid1 = asteroid\<lparr>dataHitPoints := Some currentHp\<rparr>;
                           w2 = w1\<lparr>objects := (objects w1)(a := Some asteroid1)\<rparr>
                       in if currentHp \<le> 0
                          then let w3 = (if particleEmitter w2
                                         then w2\<lparr>explosions := explosions w2 @ [(posX asteroid1, posY asteroid1)]\<rparr>
                                         else w2)
                               in removeAsteroid w3 a
                          else (case points of
                                  None \<Rightarrow> w2
                                | Some pts \<Rightarrow>
                                    if isHit = Some True then w2
                                    else
                                      let asteroid2 = asteroid1\<lparr>dataIsHit := Some True\<rparr>;
                                          asteroid3 = drawAsteroidShape asteroid2 (Some pts)
                                                        (Some (ASTEROID_HIT_FILL_COLOR, ASTEROID_HIT_FILL_ALPHA))
                                      in w2\<lparr>objects := (objects w2)(a := Some asteroid3),
                                            timers := timers w2 @ [(a, pts)]\<rparr>))))"

text \<open>The scheduler fires the pending callback number \<open>n\<close> and forgets it.\<close>

definition fireTimer :: "world \<Rightarrow> nat \<Rightarrow> world" where
  "fireTimer w n =
     (if n < length (timers w)
      then let (a, points) = timers w ! n
           in flashRevertCallback (w\<lparr>timers := take n (timers w) @ drop (Suc n) (timers w)\<rparr>) a points
      else w)"

text \<open>\<open>handlePlayerAsteroidCollision(playerGameObject, asteroidGameObject)\<close>.\<close>

definition handlePlayerAsteroidCollision :: "world \<Rightarrow> nat \<Rightarrow> world" where
  "handlePlayerAsteroidCollision w a =
     (case thePlayer w of
        None \<Rightarrow> w
      | Some p \<Rightarrow>
         (case objects w a of
            None \<Rightarrow> w
          | Some asteroid \<Rightarrow>
             if \<not> playerActive p \<or> \<not> active asteroid \<or> physBody asteroid = None then w
             else
               let w1 = (if particleEmitter w
                         then w\<lparr>explosions := explosions w @ [(posX asteroid, posY asteroid)]\<rparr>
                         else w)
               in removeAsteroid w1 a))"

text \<open>
  \<open>group.children.iterate(callback)\<close> where the callback may remove children. The
  engine's \<open>Set.iterate\<close> reads the number of entries once and then passes entry \<open>i\<close> of
  the array as it is at that moment, for each \<open>i\<close> below that number; removing a child
  splices it out of the array, so the child that followed it moves to its index and is
  not visited in this call, and the last indices find no entry (the callbacks do
  nothing for \<open>undefined\<close>). \<open>entries\<close> reads the array of the group.
\<close>

definition iterate :: "(world \<Rightarrow> nat list) \<Rightarrow> (world \<Rightarrow> nat \<Rightarrow> world) \<Rightarrow> world \<Rightarrow> world" where
  "iterate entries callback w =
     foldl (\<lambda>v i. if i < length (entries v) then callback v (entries v ! i) else v)
           w [0 ..< length (entries w)]"

text \<open>
  \<open>cleanupOutOfBoundsAsteroids(camera)\<close> and \<open>cleanupOutOfBoundsBullets(camera)\<close>: the
  callbacks, applied to one child, and the iteration over the group.
\<close>

definition cleanupAsteroid :: "Rectangle \<Rightarrow> world \<Rightarrow> nat \<Rightarrow> world" where
  "cleanupAsteroid cleanupBounds w h =
     (case objects w h of
        None \<Rightarrow> w
      | Some asteroid \<Rightarrow>
          if physBody asteroid \<noteq> None \<and> \<not> Contains cleanupBounds (posX asteroid) (posY asteroid)
          then removeAsteroid w h else w)"

definition cleanupOutOfBoundsAsteroids :: "world \<Rightarrow> world" where
  "cleanupOutOfBoundsAsteroids w =
     (case camera w of
        None \<Rightarrow> w
      | Some worldView \<Rightarrow>
          let cleanupBounds = mkRectangle (left worldView - CLEANUP_BUFFER) (top_of worldView - CLEANUP_BUFFER)
                                (width worldView + CLEANUP_BUFFER * 2) (height worldView + CLEANUP_BUFFER * 2)
          in iterate asteroidsGroup (cleanupAsteroid cleanupBounds) w)"

definition cleanupBullet :: "Rectangle \<Rightarrow> world \<Rightarrow> nat \<Rightarrow> world" where
  "cleanupBullet cleanupBounds w h =
     (case bulletObjects w h of
        None \<Rightarrow> w
      | Some bullet \<Rightarrow>
          if bulletHasBody bullet \<and> \<not> Contains cleanupBounds (bulletX bullet) (bulletY bullet)
          then destroyBullet w h else w)"

definition cleanupOutOfBoundsBullets :: "world \<Rightarrow> world" where
  "cleanupOutOfBoundsBullets w =
     (case camera w of
        None \<Rightarrow> w
      | Some worldView \<Rightarrow>
          let cleanupBounds = mkRectangle (left worldView - BULLET_CLEANUP_BUFFER) (top_of worldView - BULLET_CLEANUP_BUFFER)
                                (width worldView + BULLET_CLEANUP_BUFFER * 2) (height worldView + BULLET_CLEANUP_BUFFER * 2)
          in iterate bulletsGroup (cleanupBullet cleanupBounds) w)"

section \<open>Reachable worlds\<close>

text \<open>
  Between two calls of the game's own functions the engine moves things: it changes
  positions and velocities of the asteroids, the camera, the player and the bullets.
  It does not touch the groups of asteroids, the pending callbacks, the random source,
  nor an asteroid's \<open>active\<close> flag, data or drawing, nor whether it has a body.
\<close>

definition sameButMoved :: "asteroid \<Rightarrow> asteroid \<Rightarrow> bool" where
  "sameButMoved a a' \<longleftrightarrow>
     active a' = active a \<and> (physBody a' = None \<longleftrightarrow> physBody a = None)
     \<and> dataCategory a' = dataCategory a \<and> dataHitPoints a' = dataHitPoints a
     \<and> dataVisualSize a' = dataVisualSize a \<and> dataPoints a' = dataPoints a
     \<and> dataIsHit a' = dataIsHit a \<and> shown a' = shown a"

definition engineStep :: "world \<Rightarrow> world \<Rightarrow> bool" where
  "engineStep w w' \<longleftrightarrow>
     asteroidsGroup w' = asteroidsGroup w \<and> timers w' = timers w
     \<and> nextHandle w' = nextHandle w \<and> random w' = random w
     \<and> (\<forall>h. rel_option sameButMoved (objects w h) (objects w' h))"

text \<open>A world before anything was spawned: no object, no pending callback.\<close>

definition emptyWorld :: "world \<Rightarrow> bool" where
  "emptyWorld w \<longleftrightarrow> asteroidsGroup w = [] \<and> timers w = [] \<and> (\<forall>h. objects w h = None)"

text \<open>
  The worlds the game can be in: it starts empty, and every step is a call of one of
  the functions that \<open>create\<close>, the timers, the collision callbacks and \<open>update\<close>
  call, a pending flash revert that fires, or a step of the engine.
\<close>

inductive reachable :: "world \<Rightarrow> bool" where
  start: "emptyWorld w \<Longrightarrow> reachable w"
| inView: "reachable w \<Longrightarrow> reachable (spawnAsteroidInView w)"
| offScreen: "reachable w \<Longrightarrow> reachable (spawnAsteroid w)"
| proactive: "reachable w \<Longrightarrow> reachable (checkAndPopulateDistantAreas w)"
| bulletHit: "reachable w \<Longrightarrow> reachable (handleBulletAsteroidCollision w b a)"
| playerHit: "reachable w \<Longrightarrow> reachable (handlePlayerAsteroidCollision w a)"
| cleanup: "reachable w \<Longrightarrow> reachable (cleanupOutOfBoundsAsteroids w)"
| cleanupBullets: "reachable w \<Longrightarrow> reachable (cleanupOutOfBoundsBullets w)"
| revert: "reachable w \<Longrightarrow> reachable (fireTimer w n)"
| engine: "reachable w \<Longrightarrow> engineStep w w' \<Longrightarrow> reachable w'"

text \<open>
  A world for concrete hits: the start world with one live asteroid of size 20 at
  (1000, 0), not flashing, with the given hit points and a square outline, and two
  active bullets on it.
\<close>

definition squareOutline :: "point list" where
  "squareOutline = [(20, 0), (0, 20), (- 20, 0), (0, - 20)]"

definition targetWorld :: "int \<Rightarrow> world" where
  "targetWorld hp0 =
     startWorld\<lparr>objects := (\<lambda>h. if h = 0
                   then Some ((circleAsteroid 1000 0 20)\<lparr>dataCategory := Some M, dataHitPoints := Some hp0,
                                dataPoints := Some squareOutline, dataIsHit := Some False\<rparr>)
                   else None),
                asteroidsGroup := [0], nextHandle := 1,
                bulletObjects := (\<lambda>h. if h < 2
                   then Some \<lparr>bulletX = 1000, bulletY = 0, bulletActive = True, bulletHasBody = True\<rparr>
                   else None),
                bulletsGroup := [0, 1]\<rparr>"

text \<open>
  A world of the 800 by 600 game in which the only asteroid, of size 20, sits at
  (400, 710), the player is at rest and every draw is in the middle of the range.
\<close>

definition stuckWorld :: "world \<Rightarrow> bool" where
  "stuckWorld w \<longleftrightarrow>
     camera w = Some (mkRectangle 0 0 800 600) \<and> scaleWidth w = 800 \<and> scaleHeight w = 600
     \<and> (\<exists>p. thePlayer w = Some p \<and> playerSpeed p = 0)
     \<and> random w = (\<lambda>n. midDraw) \<and> asteroidsGroup w = [0]
     \<and> (\<exists>g. objects w 0 = Some g \<and> posX g = 400 \<and> posY g = 710 \<and> active g
            \<and> physBody g \<noteq> None \<and> dataVisualSize g = Some 20)"

section \<open>The invariant of live asteroids\<close>

text \<open>
  What holds of an asteroid while it is in the group: it is active and has a body, its
  hit points are positive and at most those of its category, and its stored outline has
  between 6 and 12 points (\<open>Phaser.Math.Between(6, 11)\<close> can return 12). The second part of the invariant says that handles from
  \<open>nextHandle\<close> on are not in use.
\<close>

definition liveAsteroid :: "asteroid \<Rightarrow> bool" where
  "liveAsteroid a \<longleftrightarrow>
     active a \<and> physBody a \<noteq> None
     \<and> (\<exists>c n pts. dataCategory a = Some c \<and> dataHitPoints a = Some n
            \<and> 0 < n \<and> n \<le> hp (ASTEROID_CATEGORIES c)
            \<and> dataPoints a = Some pts \<and> 6 \<le> length pts \<and> length pts \<le> 12)"

definition worldInvariant :: "world \<Rightarrow> bool" where
  "worldInvariant w \<longleftrightarrow>
     (\<forall>h \<in> set (asteroidsGroup w). \<exists>a. objects w h = Some a \<and> liveAsteroid a)
     \<and> (\<forall>h. nextHandle w \<le> h \<longrightarrow> objects w h = None)"

text \<open>
  An asteroid as a spawn function leaves it: live, with exactly the hit points of its
  category, and not flashing. \<open>newcomersFresh w w'\<close>: every asteroid in the group of
  \<open>w'\<close> that was not in the group of \<open>w\<close> is such an asteroid.
\<close>

definition freshAsteroid :: "asteroid \<Rightarrow> bool" where
  "freshAsteroid a \<longleftrightarrow>
     liveAsteroid a \<and> dataIsHit a = Some False
     \<and> (\<exists>c. dataCategory a = Some c \<and> dataHitPoints a = Some (hp (ASTEROID_CATEGORIES c)))"

definition newcomersFresh :: "world \<Rightarrow> world \<Rightarrow> bool" where
  "newcomersFresh w w' \<longleftrightarrow>
     (\<forall>h \<in> set (asteroidsGroup w'). h \<notin> set (asteroidsGroup w) \<longrightarrow>
        (\<exists>g. objects w' h = Some g \<and> freshAsteroid g))"

section \<open>Simple polygons\<close>

text \<open>
  The point at parameter \<open>t\<close> on the segment from \<open>P\<close> to \<open>Q\<close>. A closed ring of points
  is a simple polygon when two of its edges (edge \<open>i\<close> runs from point \<open>i\<close> to the next
  point, the last edge back to the first point) meet only where they must: an edge
  meets itself at equal parameters only, and two different edges meet only when one
  follows the other, at the vertex they share.
\<close>

definition segmentPoint :: "point \<Rightarrow> point \<Rightarrow> real \<Rightarrow> point" where
  "segmentPoint P Q t = ((1 - t) * fst P + t * fst Q, (1 - t) * snd P + t * snd Q)"

definition simplePolygon :: "point list \<Rightarrow> bool" where
  "simplePolygon ps \<longleftrightarrow>
     (\<forall>i < length ps. \<forall>j < length ps. \<forall>s t.
        0 \<le> s \<and> s \<le> 1 \<and> 0 \<le> t \<and> t \<le> 1
        \<and> segmentPoint (ps ! i) (ps ! (Suc i mod length ps)) s
            = segmentPoint (ps ! j) (ps ! (Suc j mod length ps)) t
        \<longrightarrow> (i = j \<and> s = t)
            \<or> (Suc i mod length ps = j \<and> s = 1 \<and> t = 0)
            \<or> (Suc j mod length ps = i \<and> t = 1 \<and> s = 0))"

section \<open>Facts about distances\<close>

lemma DistanceBetween_nonneg: "0 \<le> DistanceBetween x1 y1 x2 y2"
  by (simp add: DistanceBetween_def Let_def)

lemma DistanceBetween_sym: "DistanceBetween x1 y1 x2 y2 = DistanceBetween x2 y2 x1 y1"
proof -
  have "(x1 - x2) * (x1 - x2) = (x2 - x1) * (x2 - x1)"
       "(y1 - y2) * (y1 - y2) = (y2 - y1) * (y2 - y1)"
    by (simp_all add: algebra_simps)
  then show ?thesis by (simp add: DistanceBetween_def Let_def)
qed

lemma DistanceBetween_ge_dx: "\<bar>x2 - x1\<bar> \<le> DistanceBetween x1 y1 x2 y2"
proof -
  have "\<bar>x1 - x2\<bar> = sqrt ((x1 - x2) * (x1 - x2))"
    by (metis real_sqrt_abs2)
  also have "\<dots> \<le> sqrt ((x1 - x2) * (x1 - x2) + (y1 - y2) * (y1 - y2))"
    by (rule real_sqrt_le_mono) simp
  finally show ?thesis
    by (simp add: DistanceBetween_def Let_def abs_minus_commute)
qed

lemma DistanceBetween_ge_dy: "\<bar>y2 - y1\<bar> \<le> DistanceBetween x1 y1 x2 y2"
proof -
  have "\<bar>y1 - y2\<bar> = sqrt ((y1 - y2) * (y1 - y2))"
    by (metis real_sqrt_abs2)
  also have "\<dots> \<le> sqrt ((x1 - x2) * (x1 - x2) + (y1 - y2) * (y1 - y2))"
    by (rule real_sqrt_le_mono) simp
  finally show ?thesis
    by (simp add: DistanceBetween_def Let_def abs_minus_commute)
qed

lemma coarseSkip_no_overlap:
  assumes "coarseSkip visualSize cat spawnX spawnY e"
  shows "\<not> DistanceBetween spawnX spawnY (posX e) (posY e)
           < (visualSize + existingSizeOr e cat) * SPAWN_CHECK_RADIUS_MULTIPLIER"
proof -
  define s where "s = (visualSize + existingSizeOr e cat) * SPAWN_CHECK_RADIUS_MULTIPLIER"
  define d where "d = DistanceBetween spawnX spawnY (posX e) (posY e)"
  have far: "\<bar>posX e - spawnX\<bar> > s * (15 / 10) \<or> \<bar>posY e - spawnY\<bar> > s * (15 / 10)"
    using assms by (simp add: coarseSkip_def Let_def s_def)
  have dx: "\<bar>posX e - spawnX\<bar> \<le> d" and dy: "\<bar>posY e - spawnY\<bar> \<le> d"
    unfolding d_def by (rule DistanceBetween_ge_dx, rule DistanceBetween_ge_dy)
  have d0: "0 \<le> d" unfolding d_def by (rule DistanceBetween_nonneg)
  have "s \<le> d"
  proof (cases "0 \<le> s")
    case True
    then have "s \<le> s * (15 / 10)" by simp
    with far dx dy show ?thesis by linarith
  next
    case False
    with d0 show ?thesis by simp
  qed
  then show ?thesis by (simp add: s_def d_def)
qed

lemma overlapsFiltered_eq_overlapsExact:
  "overlapsFiltered visualSize cat spawnX spawnY es = overlapsExact visualSize cat spawnX spawnY es"
proof (induction es)
  case Nil
  show ?case by simp
next
  case (Cons a es)
  show ?case
  proof (cases a)
    case None
    with Cons show ?thesis by simp
  next
    case (Some e)
    show ?thesis
    proof (cases "coarseSkip visualSize cat spawnX spawnY e")
      case True
      from coarseSkip_no_overlap [OF True] True Some Cons show ?thesis
        by (simp add: coarseSkip_def Let_def)
    next
      case False
      with Some Cons show ?thesis
        by (simp add: coarseSkip_def Let_def)
    qed
  qed
qed

lemma DistanceBetween_horizontal: "DistanceBetween x1 y x2 y = \<bar>x1 - x2\<bar>"
  by (simp add: DistanceBetween_def Let_def)

lemma overlapsFiltered_single:
  assumes "active e" "physBody e \<noteq> None"
  shows "overlapsFiltered visualSize cat spawnX spawnY [Some e] \<longleftrightarrow>
         DistanceBetween spawnX spawnY (posX e) (posY e)
           < (visualSize + existingSizeOr e cat) * SPAWN_CHECK_RADIUS_MULTIPLIER"
  using assms by (simp add: overlapsFiltered_eq_overlapsExact Let_def)

lemma overlapsFiltered_circle:
  assumes "r \<noteq> 0"
  shows "overlapsFiltered visualSize cat spawnX spawnY [Some (circleAsteroid x y r)] \<longleftrightarrow>
         DistanceBetween spawnX spawnY x y < (visualSize + r) * (12 / 10)"
proof -
  have "active (circleAsteroid x y r)" "physBody (circleAsteroid x y r) \<noteq> None"
    by (simp_all add: circleAsteroid_def)
  from overlapsFiltered_single [OF this, of visualSize cat spawnX spawnY] assms
  show ?thesis
    by (simp add: circleAsteroid_def existingSizeOr_def SPAWN_CHECK_RADIUS_MULTIPLIER_def)
qed

section \<open>The overlap oracle\<close>

text \<open>
  Claim C5. The coarse bounding-box test of the overlap check never hides an overlap:
  whenever the callback skips a pair because the distance along x or along y exceeds
  \<open>(candidateSize + existingSize) * 1.2 * 1.5\<close>, the exact test
  \<open>distance < (candidateSize + existingSize) * 1.2\<close> is false for that pair; and over
  any list of children the check with the coarse test returns what the check with the
  exact test alone returns.
\<close>

theorem overlap_prefilter_sound:
  "(coarseSkip visualSize cat spawnX spawnY e \<longrightarrow>
      \<not> DistanceBetween spawnX spawnY (posX e) (posY e)
          < (visualSize + existingSizeOr e cat) * (12 / 10))
   \<and> overlapsFiltered visualSize cat spawnX spawnY es
       = overlapsExact visualSize cat spawnX spawnY es"
  using coarseSkip_no_overlap [of visualSize cat spawnX spawnY e]
        overlapsFiltered_eq_overlapsExact [of visualSize cat spawnX spawnY es]
  by (simp add: SPAWN_CHECK_RADIUS_MULTIPLIER_def)

theorem overlap_prefilter_sound_witness:
  "coarseSkip 10 (ASTEROID_CATEGORIES XS) 0 0 (circleAsteroid 100 0 10)
   \<and> \<not> DistanceBetween 0 0 100 0 < (10 + 10) * (12 / 10)
   \<and> overlapsFiltered 10 (ASTEROID_CATEGORIES XS) 0 0 [Some (circleAsteroid 100 0 10)]
       = overlapsExact 10 (ASTEROID_CATEGORIES XS) 0 0 [Some (circleAsteroid 100 0 10)]"
proof -
  have skip: "coarseSkip 10 (ASTEROID_CATEGORIES XS) 0 0 (circleAsteroid 100 0 10)"
    by (simp add: coarseSkip_def circleAsteroid_def existingSizeOr_def
        SPAWN_CHECK_RADIUS_MULTIPLIER_def)
  have sz: "existingSizeOr (circleAsteroid 100 0 10) (ASTEROID_CATEGORIES XS) = 10"
    by (simp add: circleAsteroid_def existingSizeOr_def)
  have px: "posX (circleAsteroid 100 0 10) = 100" "posY (circleAsteroid 100 0 10) = 0"
    by (simp_all add: circleAsteroid_def)
  from overlap_prefilter_sound [of 10 "ASTEROID_CATEGORIES XS" 0 0 "circleAsteroid 100 0 10"
        "[Some (circleAsteroid 100 0 10)]"] skip
  show ?thesis unfolding sz px by blast
qed

text \<open>
  Claim C4. Against one live asteroid of recorded size r, the check reports an overlap
  exactly when the distance between the centres is below
  \<open>(candidateSize + r) * 1.2\<close>; for two circles A and B of non-zero radius, A
  overlaps B exactly when B overlaps A; and the circle at (0,0) of radius 10 overlaps the
  circle at (15,0) of radius 10: the distance is 15 and the required distance is 24.
  (A recorded size of 0 reads as missing, and the minimum size of the candidate's
  category stands in for it.)
\<close>

theorem overlap_oracle_symmetric:
  "(active e \<and> physBody e \<noteq> None \<and> dataVisualSize e = Some r \<and> r \<noteq> 0 \<longrightarrow>
      (overlapsFiltered visualSize cat spawnX spawnY [Some e] \<longleftrightarrow>
       DistanceBetween spawnX spawnY (posX e) (posY e) < (visualSize + r) * (12 / 10)))
   \<and> (rA \<noteq> 0 \<and> rB \<noteq> 0 \<longrightarrow>
      (overlapsFiltered rA catA xA yA [Some (circleAsteroid xB yB rB)] \<longleftrightarrow>
       overlapsFiltered rB catB xB yB [Some (circleAsteroid xA yA rA)]))
   \<and> overlapsFiltered 10 cat 0 0 [Some (circleAsteroid 15 0 10)]
   \<and> DistanceBetween 0 0 15 0 = 15
   \<and> (10 + 10) * SPAWN_CHECK_RADIUS_MULTIPLIER = 24"
proof (intro conjI impI)
  assume a: "active e \<and> physBody e \<noteq> None \<and> dataVisualSize e = Some r \<and> r \<noteq> 0"
  then have live: "active e" "physBody e \<noteq> None" by simp_all
  have sz: "existingSizeOr e cat = r" using a by (simp add: existingSizeOr_def)
  have m: "SPAWN_CHECK_RADIUS_MULTIPLIER = 12 / 10"
    by (simp add: SPAWN_CHECK_RADIUS_MULTIPLIER_def)
  show "overlapsFiltered visualSize cat spawnX spawnY [Some e] \<longleftrightarrow>
       DistanceBetween spawnX spawnY (posX e) (posY e) < (visualSize + r) * (12 / 10)"
    using overlapsFiltered_single [OF live, of visualSize cat spawnX spawnY]
    unfolding sz m .
next
  assume nz: "rA \<noteq> 0 \<and> rB \<noteq> 0"
  have "overlapsFiltered rA catA xA yA [Some (circleAsteroid xB yB rB)] \<longleftrightarrow>
        DistanceBetween xA yA xB yB < (rA + rB) * (12 / 10)"
    using nz by (intro overlapsFiltered_circle) blast
  moreover have "overlapsFiltered rB catB xB yB [Some (circleAsteroid xA yA rA)] \<longleftrightarrow>
        DistanceBetween xB yB xA yA < (rB + rA) * (12 / 10)"
    using nz by (intro overlapsFiltered_circle) blast
  moreover have "DistanceBetween xA yA xB yB = DistanceBetween xB yB xA yA"
    by (rule DistanceBetween_sym)
  moreover have "rA + rB = rB + rA" by simp
  ultimately show "overlapsFiltered rA catA xA yA [Some (circleAsteroid xB yB rB)] \<longleftrightarrow>
       overlapsFiltered rB catB xB yB [Some (circleAsteroid xA yA rA)]"
    by (simp only:)
next
  have "DistanceBetween 0 0 15 0 < (10 + 10) * (12 / 10)"
    by (simp add: DistanceBetween_horizontal)
  then show "overlapsFiltered 10 cat 0 0 [Some (circleAsteroid 15 0 10)]"
    by (subst overlapsFiltered_circle) simp_all
next
  show "DistanceBetween 0 0 15 0 = 15" by (simp add: DistanceBetween_horizontal)
next
  show "(10 + 10) * SPAWN_CHECK_RADIUS_MULTIPLIER = 24"
    by (simp add: SPAWN_CHECK_RADIUS_MULTIPLIER_def)
qed

theorem overlap_oracle_symmetric_witness:
  "(overlapsFiltered 10 (ASTEROID_CATEGORIES XS) 0 0 [Some (circleAsteroid 15 0 10)] \<longleftrightarrow>
       DistanceBetween 0 0 15 0 < (10 + 10) * (12 / 10))
   \<and> (overlapsFiltered 10 (ASTEROID_CATEGORIES XS) 0 0 [Some (circleAsteroid 15 0 10)] \<longleftrightarrow>
       overlapsFiltered 10 (ASTEROID_CATEGORIES M) 15 0 [Some (circleAsteroid 0 0 10)])"
proof -
  have e: "active (circleAsteroid 15 0 10) \<and> physBody (circleAsteroid 15 0 10) \<noteq> None
      \<and> dataVisualSize (circleAsteroid 15 0 10) = Some 10 \<and> (10::real) \<noteq> 0"
    by (simp add: circleAsteroid_def)
  have p: "posX (circleAsteroid 15 0 10) = 15" "posY (circleAsteroid 15 0 10) = 0"
    by (simp_all add: circleAsteroid_def)
  have nz: "(10::real) \<noteq> 0 \<and> (10::real) \<noteq> 0" by simp
  from overlap_oracle_symmetric [where e = "circleAsteroid 15 0 10" and r = 10 and visualSize = 10
      and cat = "ASTEROID_CATEGORIES XS" and spawnX = 0 and spawnY = 0 and rA = 10 and rB = 10
      and catA = "ASTEROID_CATEGORIES XS" and xA = 0 and yA = 0 and xB = 15 and yB = 0
      and catB = "ASTEROID_CATEGORIES M"] e nz
  show ?thesis unfolding p by blast
qed


section \<open>Region-constrained spawn: facts\<close>

lemma Rep_draw_ge0: "0 \<le> Rep_draw u" and Rep_draw_less1: "Rep_draw u < 1"
  using Rep_draw [of u] by auto

lemma Rep_midDraw: "Rep_draw midDraw = 1 / 2"
  by (simp add: midDraw_def Abs_draw_inverse)

lemma FloatBetween_range:
  assumes "mn \<le> mx"
  shows "mn \<le> FloatBetween u mn mx" and "FloatBetween u mn mx \<le> mx"
proof -
  have "0 \<le> Rep_draw u * (mx - mn)"
    using assms Rep_draw_ge0 [of u] by simp
  then show "mn \<le> FloatBetween u mn mx" by (simp add: FloatBetween_def)
  have "Rep_draw u * (mx - mn) \<le> 1 * (mx - mn)"
    using assms Rep_draw_less1 [of u] by (intro mult_right_mono) simp_all
  then show "FloatBetween u mn mx \<le> mx" by (simp add: FloatBetween_def)
qed


lemma regionRetry_exhaust:
  "(\<forall>u v. rejectedAt existing worldView visualSize cat
                   (FloatBetween u (left regionBounds) (right regionBounds))
                   (FloatBetween v (top_of regionBounds) (bottom regionBounds)))
   \<Longrightarrow> regionRetry rnd existing worldView regionBounds visualSize cat retry pos
         = (None, max retry SPAWN_MAX_RETRIES, pos + 2 * (SPAWN_MAX_RETRIES - retry))"
proof (induction rnd existing worldView regionBounds visualSize cat retry pos
       rule: regionRetry.induct)
  case (1 rnd existing worldView regionBounds visualSize cat retry pos)
  let ?sx = "FloatBetween (rnd pos) (left regionBounds) (right regionBounds)"
  let ?sy = "FloatBetween (rnd (pos + 1)) (top_of regionBounds) (bottom regionBounds)"
  note unf = regionRetry.simps [of rnd existing worldView regionBounds visualSize cat retry pos]
  show ?case
  proof (cases "retry < SPAWN_MAX_RETRIES")
    case lt: True
    have rej: "rejectedAt existing worldView visualSize cat ?sx ?sy"
      using "1.prems" by blast
    have arith: "max (retry + 1) SPAWN_MAX_RETRIES = max retry SPAWN_MAX_RETRIES"
        "pos + 2 + 2 * (SPAWN_MAX_RETRIES - (retry + 1)) = pos + 2 * (SPAWN_MAX_RETRIES - retry)"
      using lt by simp_all
    show ?thesis
    proof (cases "Contains worldView ?sx ?sy")
      case True
      from "1.IH"(1) [OF lt refl refl True "1.prems"] lt True arith show ?thesis
        unfolding unf by (simp add: Let_def)
    next
      case False
      with rej have ov: "overlapsFiltered visualSize cat ?sx ?sy existing"
        by (simp add: rejectedAt_def)
      from "1.IH"(2) [OF lt refl refl False ov "1.prems"] lt False ov arith show ?thesis
        unfolding unf by (simp add: Let_def)
    qed
  next
    case False
    then show ?thesis unfolding unf by simp
  qed
qed


lemma GetRandom_active: "\<exists>c. GetRandom u ACTIVE_ASTEROID_CATEGORIES = Some c"
proof -
  have "0 \<le> Rep_draw u * 3" "Rep_draw u * 3 < 3"
    using Rep_draw_ge0 [of u] Rep_draw_less1 [of u] by simp_all
  then have "0 \<le> \<lfloor>Rep_draw u * 3\<rfloor>" "\<lfloor>Rep_draw u * 3\<rfloor> < 3"
    by (simp_all add: floor_less_iff)
  then have "0 \<le> \<lfloor>Rep_draw u * 3\<rfloor>" "nat \<lfloor>Rep_draw u * 3\<rfloor> < 3"
    by linarith+
  then show ?thesis
    by (simp add: GetRandom_def ACTIVE_ASTEROID_CATEGORIES_def Let_def)
qed

text \<open>Rounding to a double keeps a number on its side of every whole number below \<open>2 ^ 53\<close>.\<close>

lemma roundTiesToEven_le:
  assumes "y \<le> real_of_int m"
  shows "roundTiesToEven y \<le> m"
proof (cases "y = real_of_int m")
  case True
  then show ?thesis by (simp add: roundTiesToEven_def)
next
  case False
  with assms have "y < real_of_int m" by simp
  then have "\<lfloor>y\<rfloor> < m" by (simp add: floor_less_iff)
  then show ?thesis by (simp add: roundTiesToEven_def Let_def)
qed

lemma roundTiesToEven_ge:
  assumes "real_of_int m \<le> y"
  shows "m \<le> roundTiesToEven y"
proof -
  from assms have "m \<le> \<lfloor>y\<rfloor>" by (simp add: le_floor_iff)
  then show ?thesis by (simp add: roundTiesToEven_def Let_def)
qed

lemma roundTiesToEven_of_int: "roundTiesToEven (real_of_int m) = m"
  by (simp add: roundTiesToEven_def)

lemma ulp_pos: "0 < ulp x"
  by (simp add: ulp_def)

lemma binade_le:
  assumes "x \<noteq> 0" "\<bar>x\<bar> < 2 ^ Suc k"
  shows "binade x \<le> int k"
proof -
  have "log 2 \<bar>x\<bar> < log 2 (2 ^ Suc k)"
    using assms by (subst log_less_cancel_iff) simp_all
  also have "\<dots> = real (Suc k)" by (rule log_pow_cancel) simp_all
  finally have "\<lfloor>log 2 \<bar>x\<bar>\<rfloor> < int (Suc k)" by (simp add: floor_less_iff)
  then show ?thesis by (simp add: binade_def)
qed

text \<open>Below \<open>2 ^ Suc k\<close> the grid of doubles contains every multiple of \<open>2 ^ k / 2 ^ 52\<close>.\<close>

lemma grid_multiple:
  assumes "x \<noteq> 0" "\<bar>x\<bar> < 2 ^ Suc k" "k \<le> 52"
  shows "\<exists>j::nat. 2 ^ k / 2 ^ 52 = ulp x * 2 ^ j"
proof -
  from binade_le [OF assms(1,2)] have le: "binade x \<le> int k" .
  define j where "j = nat (int k - binade x)"
  have e: "real_of_int (binade x) - 52 + real j = real k - 52"
    using le by (simp add: j_def)
  have pj: "(2::real) powr (real j) = 2 ^ j" by (simp add: powr_realpow)
  have "ulp x * 2 ^ j = 2 powr (real_of_int (binade x) - 52) * 2 powr (real j)"
    by (simp only: ulp_def pj)
  also have "\<dots> = 2 powr (real_of_int (binade x) - 52 + real j)"
    by (simp only: powr_add)
  also have "\<dots> = 2 powr (real k - 52)" by (simp only: e)
  also have "\<dots> = 2 ^ k / 2 ^ 52" by (simp add: powr_diff powr_realpow)
  finally have "2 ^ k / 2 ^ 52 = ulp x * 2 ^ j" by (rule sym)
  then show ?thesis by (rule exI)
qed

lemma int_on_grid:
  assumes "x \<noteq> 0" "\<bar>x\<bar> < 2 ^ 53"
  shows "\<exists>m::int. real_of_int n = ulp x * real_of_int m"
proof -
  from grid_multiple [of x 52] assms obtain j :: nat where "(1::real) = ulp x * 2 ^ j"
    by auto
  then have "real_of_int n = ulp x * real_of_int (n * 2 ^ j)"
    by (simp add: algebra_simps)
  then show ?thesis by blast
qed

lemma binary64_le_int:
  assumes "x \<le> real_of_int n" "\<bar>x\<bar> < 2 ^ 53"
  shows "binary64 x \<le> real_of_int n"
proof (cases "x = 0")
  case True
  with assms show ?thesis by (simp add: binary64_def)
next
  case False
  from int_on_grid [OF False assms(2), of n] obtain m :: int where
    m: "real_of_int n = ulp x * real_of_int m" by blast
  have "x / ulp x \<le> real_of_int m"
    using assms(1) ulp_pos [of x] unfolding m by (simp add: pos_divide_le_eq mult.commute)
  then have "roundTiesToEven (x / ulp x) \<le> m" by (rule roundTiesToEven_le)
  then have "ulp x * real_of_int (roundTiesToEven (x / ulp x)) \<le> ulp x * real_of_int m"
    using ulp_pos [of x] by (intro mult_left_mono) simp_all
  then show ?thesis using False by (simp add: binary64_def m)
qed

lemma binary64_ge_int:
  assumes "real_of_int n \<le> x" "\<bar>x\<bar> < 2 ^ 53"
  shows "real_of_int n \<le> binary64 x"
proof (cases "x = 0")
  case True
  with assms show ?thesis by (simp add: binary64_def)
next
  case False
  from int_on_grid [OF False assms(2), of n] obtain m :: int where
    m: "real_of_int n = ulp x * real_of_int m" by blast
  have "real_of_int m \<le> x / ulp x"
    using assms(1) ulp_pos [of x] unfolding m by (simp add: pos_le_divide_eq mult.commute)
  then have "m \<le> roundTiesToEven (x / ulp x)" by (rule roundTiesToEven_ge)
  then have "ulp x * real_of_int m \<le> ulp x * real_of_int (roundTiesToEven (x / ulp x))"
    using ulp_pos [of x] by (intro mult_left_mono) simp_all
  then show ?thesis using False by (simp add: binary64_def m)
qed

lemma Between_range:
  assumes "0 \<le> a" "a \<le> b" "b < 2 ^ 52"
  shows "a \<le> Between u (real_of_int a) (real_of_int b)"
    and "Between u (real_of_int a) (real_of_int b) \<le> b + 1"
proof -
  define y where "y = Rep_draw u * (real_of_int b - real_of_int a + 1)"
  define y' where "y' = binary64 y"
  define z where "z = y' + real_of_int a"
  have u: "0 \<le> Rep_draw u" "Rep_draw u < 1" using Rep_draw_ge0 [of u] Rep_draw_less1 [of u] by simp_all
  have k: "0 < real_of_int b - real_of_int a + 1" using assms by simp
  have y0: "real_of_int 0 \<le> y" unfolding y_def using u k by simp
  have "y < 1 * (real_of_int b - real_of_int a + 1)"
    unfolding y_def using u(2) k by (intro mult_strict_right_mono) simp_all
  then have y1: "y \<le> real_of_int (b - a + 1)" by simp
  have b52: "real_of_int b < 2 ^ 52" using assms(3) by (metis of_int_less_iff of_int_numeral of_int_power)
  have a0: "0 \<le> real_of_int a" using assms(1) by simp
  have ab: "real_of_int a \<le> real_of_int b" using assms(2) by simp
  have ysmall: "\<bar>y\<bar> < 2 ^ 53" using y0 y1 b52 a0 by simp
  have y'0: "real_of_int 0 \<le> y'" unfolding y'_def by (rule binary64_ge_int [OF y0 ysmall])
  have y'1: "y' \<le> real_of_int (b - a + 1)" unfolding y'_def by (rule binary64_le_int [OF y1 ysmall])
  have z0: "real_of_int a \<le> z" unfolding z_def using y'0 by simp
  have z1: "z \<le> real_of_int (b + 1)" unfolding z_def using y'1 by simp
  have zsmall: "\<bar>z\<bar> < 2 ^ 53" using z0 z1 b52 a0 by simp
  have "real_of_int a \<le> binary64 z" by (rule binary64_ge_int [OF z0 zsmall])
  then show "a \<le> Between u (real_of_int a) (real_of_int b)"
    unfolding Between_def y_def [symmetric] y'_def [symmetric] z_def [symmetric]
    by (simp add: le_floor_iff)
  have "binary64 z \<le> real_of_int (b + 1)" by (rule binary64_le_int [OF z1 zsmall])
  then have "\<lfloor>binary64 z\<rfloor> \<le> b + 1" by (metis floor_mono floor_of_int)
  then show "Between u (real_of_int a) (real_of_int b) \<le> b + 1"
    unfolding Between_def y_def [symmetric] y'_def [symmetric] z_def [symmetric] .
qed


lemma binary64_half_int:
  assumes "\<bar>n\<bar> < 2 ^ 53"
  shows "binary64 (real_of_int n / 2) = real_of_int n / 2"
proof (cases "n = 0")
  case True
  then show ?thesis by (simp add: binary64_def)
next
  case False
  define x where "x = real_of_int n / 2"
  have x0: "x \<noteq> 0" using False by (simp add: x_def)
  have "\<bar>real_of_int n\<bar> < 2 ^ 53"
    using assms by (metis of_int_abs of_int_less_iff of_int_numeral of_int_power)
  then have "\<bar>x\<bar> < 2 ^ Suc 51" by (simp add: x_def)
  from grid_multiple [OF x0 this] obtain j :: nat where j: "(2::real) ^ 51 / 2 ^ 52 = ulp x * 2 ^ j"
    by auto
  then have half: "ulp x * 2 ^ j = 1 / 2" by simp
  have "x = ulp x * real_of_int (n * 2 ^ j)"
    using half by (simp add: x_def algebra_simps)
  then have q: "x / ulp x = real_of_int (n * 2 ^ j)"
    using ulp_pos [of x] by (simp add: field_simps)
  have "binary64 x = ulp x * real_of_int (n * 2 ^ j)"
    using x0 unfolding binary64_def q roundTiesToEven_of_int by simp
  also have "\<dots> = x" using half by (simp add: x_def algebra_simps)
  finally show ?thesis unfolding x_def .
qed

lemma binary64_eval:
  assumes "2 ^ k \<le> x" "x < 2 ^ Suc k"
  shows "binary64 x = real_of_int (roundTiesToEven (x * 2 ^ 52 / 2 ^ k)) * 2 ^ k / 2 ^ 52"
proof -
  have pos: "0 < x" using assms(1) by (meson less_le_trans zero_less_numeral zero_less_power)
  have "log 2 (2 ^ k) \<le> log 2 x"
    using assms(1) pos by (subst log_le_cancel_iff) simp_all
  moreover have "log 2 ((2::real) ^ k) = real k" by (rule log_pow_cancel) simp_all
  ultimately have lo: "real_of_int (int k) \<le> log 2 x" by simp
  have "log 2 x < log 2 (2 ^ Suc k)"
    using assms(2) pos by (subst log_less_cancel_iff) simp_all
  moreover have "log 2 ((2::real) ^ Suc k) = real (Suc k)" by (rule log_pow_cancel) simp_all
  ultimately have hi: "log 2 x < real_of_int (int k) + 1" by simp
  have "\<lfloor>log 2 x\<rfloor> = int k" using lo hi by (rule floor_unique)
  then have "binade x = int k" using pos by (simp add: binade_def)
  then have u: "ulp x = 2 ^ k / 2 ^ 52"
    by (simp add: ulp_def powr_diff powr_realpow)
  have "x / ulp x = x * 2 ^ 52 / 2 ^ k" unfolding u by simp
  then show ?thesis using pos unfolding binary64_def by (simp add: u)
qed

lemma category_size_range:
  "minSize (ASTEROID_CATEGORIES c)
     \<le> real_of_int (Between u (minSize (ASTEROID_CATEGORIES c)) (maxSize (ASTEROID_CATEGORIES c)))"
  "real_of_int (Between u (minSize (ASTEROID_CATEGORIES c)) (maxSize (ASTEROID_CATEGORIES c)))
     \<le> maxSize (ASTEROID_CATEGORIES c) + 1"
proof -
  obtain a b :: int where ab: "minSize (ASTEROID_CATEGORIES c) = real_of_int a"
      "maxSize (ASTEROID_CATEGORIES c) = real_of_int b" "0 \<le> a" "a \<le> b" "b < 2 ^ 52"
  proof (cases c)
    case XS then show ?thesis using that [of 10 15] by simp
  next
    case S then show ?thesis using that [of 16 24] by simp
  next
    case M then show ?thesis using that [of 25 40] by simp
  qed
  from Between_range [OF ab(3,4,5), of u] ab(1,2)
  show "minSize (ASTEROID_CATEGORIES c)
     \<le> real_of_int (Between u (minSize (ASTEROID_CATEGORIES c)) (maxSize (ASTEROID_CATEGORIES c)))"
    "real_of_int (Between u (minSize (ASTEROID_CATEGORIES c)) (maxSize (ASTEROID_CATEGORIES c)))
     \<le> maxSize (ASTEROID_CATEGORIES c) + 1"
    by simp_all
qed

lemma category_sizes_ordered: "minSize (ASTEROID_CATEGORIES c) \<le> maxSize (ASTEROID_CATEGORIES c)"
  by (cases c) simp_all

text \<open>A larger candidate overlaps whatever a smaller one at the same place overlaps.\<close>

lemma overlapsExact_mono:
  assumes "s \<le> s'"
  shows "overlapsExact s cat x y es \<Longrightarrow> overlapsExact s' cat x y es"
proof (induction es)
  case Nil
  then show ?case by simp
next
  case (Cons a es)
  show ?case
  proof (cases a)
    case None
    with Cons show ?thesis by simp
  next
    case (Some e)
    have "(s + existingSizeOr e cat) * SPAWN_CHECK_RADIUS_MULTIPLIER
            \<le> (s' + existingSizeOr e cat) * SPAWN_CHECK_RADIUS_MULTIPLIER"
      using assms by (simp add: SPAWN_CHECK_RADIUS_MULTIPLIER_def)
    with Cons Some show ?thesis
      by (auto simp: Let_def split: if_splits)
  qed
qed

lemma rejectedAt_mono:
  assumes "s \<le> s'" "rejectedAt existing worldView s cat x y"
  shows "rejectedAt existing worldView s' cat x y"
  using assms overlapsExact_mono [OF assms(1), of cat x y existing]
  by (auto simp: rejectedAt_def overlapsFiltered_eq_overlapsExact)

lemma region_exhaust_traced:
  assumes cam: "camera w = Some worldView"
    and rej: "\<forall>u v c s. minSize (ASTEROID_CATEGORIES c) \<le> s \<and> s \<le> maxSize (ASTEROID_CATEGORIES c) \<longrightarrow>
           rejectedAt (children w) worldView s (ASTEROID_CATEGORIES c)
             (FloatBetween u (left regionBounds) (right regionBounds))
             (FloatBetween v (top_of regionBounds) (bottom regionBounds))"
  shows "spawnAsteroidInRegionTraced w regionBounds
           = (w\<lparr>drawn := drawn w + 3 + 2 * SPAWN_MAX_RETRIES\<rparr>, None, SPAWN_MAX_RETRIES)"
proof -
  obtain c where c: "GetRandom (random w (drawn w)) ACTIVE_ASTEROID_CATEGORIES = Some c"
    using GetRandom_active by blast
  define s where "s = real_of_int (Between (random w (drawn w + 1))
                        (minSize (ASTEROID_CATEGORIES c)) (maxSize (ASTEROID_CATEGORIES c)))"
  have lo: "minSize (ASTEROID_CATEGORIES c) \<le> s"
    unfolding s_def by (rule category_size_range)
  have "minSize (ASTEROID_CATEGORIES c) \<le> min s (maxSize (ASTEROID_CATEGORIES c))
        \<and> min s (maxSize (ASTEROID_CATEGORIES c)) \<le> maxSize (ASTEROID_CATEGORIES c)"
    using lo category_sizes_ordered [of c] by simp
  with rej have "rejectedAt (children w) worldView (min s (maxSize (ASTEROID_CATEGORIES c)))
             (ASTEROID_CATEGORIES c)
             (FloatBetween u (left regionBounds) (right regionBounds))
             (FloatBetween v (top_of regionBounds) (bottom regionBounds))" for u v
    by blast
  then have "\<forall>u v. rejectedAt (children w) worldView s (ASTEROID_CATEGORIES c)
             (FloatBetween u (left regionBounds) (right regionBounds))
             (FloatBetween v (top_of regionBounds) (bottom regionBounds))"
    using rejectedAt_mono [of "min s (maxSize (ASTEROID_CATEGORIES c))" s] by simp
  from regionRetry_exhaust [OF this, of "random w" 0 "drawn w + 3"]
  have loop: "regionRetry (random w) (children w) worldView regionBounds s (ASTEROID_CATEGORIES c) 0
                (drawn w + 3) = (None, SPAWN_MAX_RETRIES, drawn w + 3 + 2 * SPAWN_MAX_RETRIES)"
    by simp
  show ?thesis
    unfolding spawnAsteroidInRegionTraced_def
    using cam c loop [unfolded s_def] by (simp add: Let_def)
qed



text \<open>
  Claim C3. In a world with a camera where every position the region strategy can
  sample in the target rectangle is rejected, by the viewport test or by the overlap
  check, for every size a category allows (the size after it, which rounding in
  \<open>Phaser.Math.Between\<close> can produce, is then rejected too), \<open>spawnAsteroidInRegion\<close> makes exactly
  \<open>SPAWN_MAX_RETRIES\<close> = 15 attempts and returns null; the world it leaves differs
  from the one it found only in the count of random draws (3 for category, size and
  vertex count, 2 per attempt), so the group and every object are as before. The model
  has no operation that can throw on this path.
\<close>

theorem region_spawn_exhausts_retries:
  assumes cam: "camera w = Some worldView"
    and rej: "\<forall>u v c s. minSize (ASTEROID_CATEGORIES c) \<le> s \<and> s \<le> maxSize (ASTEROID_CATEGORIES c) \<longrightarrow>
           rejectedAt (children w) worldView s (ASTEROID_CATEGORIES c)
             (FloatBetween u (left regionBounds) (right regionBounds))
             (FloatBetween v (top_of regionBounds) (bottom regionBounds))"
  shows "spawnAsteroidInRegionTraced w regionBounds
           = (w\<lparr>drawn := drawn w + 3 + 2 * SPAWN_MAX_RETRIES\<rparr>, None, SPAWN_MAX_RETRIES)
         \<and> SPAWN_MAX_RETRIES = 15
         \<and> snd (spawnAsteroidInRegion w regionBounds) = None
         \<and> asteroidsGroup (fst (spawnAsteroidInRegion w regionBounds)) = asteroidsGroup w
         \<and> objects (fst (spawnAsteroidInRegion w regionBounds)) = objects w"
proof -
  from region_exhaust_traced [OF cam rej]
  have traced: "spawnAsteroidInRegionTraced w regionBounds
           = (w\<lparr>drawn := drawn w + 3 + 2 * SPAWN_MAX_RETRIES\<rparr>, None, SPAWN_MAX_RETRIES)" .
  then show ?thesis
    by (simp add: spawnAsteroidInRegion_def SPAWN_MAX_RETRIES_def)
qed


lemma spawnTraced_Some_frame:
  assumes "spawnAsteroidInRegionTraced w regionBounds = (w', Some h, a)"
  shows "h = nextHandle w \<and> asteroidsGroup w' = asteroidsGroup w @ [h]
         \<and> (\<forall>k. k \<noteq> h \<longrightarrow> objects w' k = objects w k) \<and> objects w' h \<noteq> None
         \<and> timers w' = timers w \<and> nextHandle w' = Suc (nextHandle w)
         \<and> random w' = random w \<and> camera w' = camera w \<and> bodyAttach w' = bodyAttach w"
  using assms
  unfolding spawnAsteroidInRegionTraced_def addAsteroidGraphics_def
  by (auto simp: Let_def removeAsteroid_def split: option.splits prod.splits if_splits)

lemma spawnTraced_Some_object:
  assumes "spawnAsteroidInRegionTraced w regionBounds = (w', Some h, a)"
    and "objects w' h = Some g"
  shows "\<exists>worldView c p.
           camera w = Some worldView
         \<and> regionRetry (random w) (children w) worldView regionBounds
               (real_of_int (Between (random w (drawn w + 1))
                  (minSize (ASTEROID_CATEGORIES c)) (maxSize (ASTEROID_CATEGORIES c))))
               (ASTEROID_CATEGORIES c) 0 (drawn w + 3) = (Some (posX g, posY g), a, p)
         \<and> active g \<and> physBody g \<noteq> None
         \<and> dataCategory g = Some c
         \<and> dataHitPoints g = Some (hp (ASTEROID_CATEGORIES c))
         \<and> dataPoints g = Some (generateAsteroidPoints (random w) p
               (real_of_int (Between (random w (drawn w + 1))
                  (minSize (ASTEROID_CATEGORIES c)) (maxSize (ASTEROID_CATEGORIES c))))
               (Between (random w (drawn w + 2)) ASTEROID_MIN_VERTICES ASTEROID_MAX_VERTICES))"
  using assms
  unfolding spawnAsteroidInRegionTraced_def addAsteroidGraphics_def
  by (auto simp: Let_def removeAsteroid_def setAsteroidData_def drawAsteroidShape_def newGraphics_def
      split: option.splits prod.splits if_splits)










theorem region_spawn_exhausts_retries_witness:
  "spawnAsteroidInRegionTraced startWorld seenRegion = (startWorld\<lparr>drawn := 33\<rparr>, None, 15)"
proof -
  have cam: "camera startWorld = Some (mkRectangle 0 0 800 600)"
    by (simp add: startWorld_def)
  have rej: "\<forall>u v c s. minSize (ASTEROID_CATEGORIES c) \<le> s \<and> s \<le> maxSize (ASTEROID_CATEGORIES c) \<longrightarrow>
           rejectedAt (children startWorld) (mkRectangle 0 0 800 600) s (ASTEROID_CATEGORIES c)
             (FloatBetween u (left seenRegion) (right seenRegion))
             (FloatBetween v (top_of seenRegion) (bottom seenRegion))"
  proof (intro allI impI)
    fix u v c s
    have "left seenRegion \<le> right seenRegion" "top_of seenRegion \<le> bottom seenRegion"
      by (simp_all add: seenRegion_def mkRectangle_def left_def right_def top_of_def bottom_def)
    from FloatBetween_range [OF this(1), of u] FloatBetween_range [OF this(2), of v]
    have "Contains (mkRectangle 0 0 800 600)
             (FloatBetween u (left seenRegion) (right seenRegion))
             (FloatBetween v (top_of seenRegion) (bottom seenRegion))"
      by (simp add: Contains_def seenRegion_def mkRectangle_def left_def right_def top_of_def bottom_def)
    then show "rejectedAt (children startWorld) (mkRectangle 0 0 800 600) s (ASTEROID_CATEGORIES c)
             (FloatBetween u (left seenRegion) (right seenRegion))
             (FloatBetween v (top_of seenRegion) (bottom seenRegion))"
      by (simp add: rejectedAt_def)
  qed
  from region_spawn_exhausts_retries [OF cam rej]
  show ?thesis by (simp add: SPAWN_MAX_RETRIES_def startWorld_def)
qed

section \<open>The density controller: facts\<close>

lemma findQuadrant_Some_iff:
  "findQuadrant qs x y i0 = Some i \<longleftrightarrow>
     i0 \<le> i \<and> i - i0 < length qs \<and> Contains (qs ! (i - i0)) x y
     \<and> (\<forall>j < i - i0. \<not> Contains (qs ! j) x y)"
proof (induction qs arbitrary: i0)
  case Nil
  show ?case by simp
next
  case (Cons q qs)
  show ?case
  proof (cases "Contains q x y")
    case True
    have "i0 \<le> i \<and> (\<forall>j < i - i0. \<not> Contains ((q # qs) ! j) x y) \<longrightarrow> i = i0"
    proof (intro impI)
      assume a: "i0 \<le> i \<and> (\<forall>j < i - i0. \<not> Contains ((q # qs) ! j) x y)"
      have "\<not> 0 < i - i0"
      proof
        assume "0 < i - i0"
        with a have "\<not> Contains ((q # qs) ! 0) x y" by blast
        with True show False by simp
      qed
      with a show "i = i0" by simp
    qed
    with True show ?thesis by auto
  next
    case False
    have "findQuadrant (q # qs) x y i0 = Some i \<longleftrightarrow> findQuadrant qs x y (Suc i0) = Some i"
      using False by simp
    also have "\<dots> \<longleftrightarrow> Suc i0 \<le> i \<and> i - Suc i0 < length qs \<and> Contains (qs ! (i - Suc i0)) x y
        \<and> (\<forall>j < i - Suc i0. \<not> Contains (qs ! j) x y)"
      by (rule Cons.IH)
    also have "\<dots> \<longleftrightarrow> i0 \<le> i \<and> i - i0 < length (q # qs) \<and> Contains ((q # qs) ! (i - i0)) x y
        \<and> (\<forall>j < i - i0. \<not> Contains ((q # qs) ! j) x y)"
    proof (cases "i0 < i")
      case True
      then obtain d where d: "i - i0 = Suc d" "i - Suc i0 = d"
        by (metis Suc_diff_Suc)
      have "(\<forall>j < Suc d. \<not> Contains ((q # qs) ! j) x y) \<longleftrightarrow> (\<forall>j < d. \<not> Contains (qs ! j) x y)"
        using False by (auto simp: less_Suc_eq_0_disj)
      with True d show ?thesis by auto
    next
      case False
      then have "i - i0 = 0" by simp
      with False \<open>\<not> Contains q x y\<close> show ?thesis by auto
    qed
    finally show ?thesis .
  qed
qed

lemma quadrant_in_genBounds:
  assumes "i < 4" "Contains (quadrantsOf worldView p ! i) x y"
  shows "Contains (genBoundsOf worldView p) x y"
proof -
  from assms(1) consider "i = 0" | "i = 1" | "i = 2" | "i = 3" by linarith
  then show ?thesis
    using assms(2)
    by cases (auto simp: quadrantsOf_def genBoundsOf_def Contains_def mkRectangle_def Let_def
        left_def top_of_def PROACTIVE_GENERATION_RADIUS_MULTIPLIER_def split: if_splits)
qed

lemma length_quadrantsOf: "length (quadrantsOf worldView p) = 4"
  by (simp add: quadrantsOf_def Let_def)

lemma length_countAsteroid:
  "length (countAsteroid innerBounds genBounds quadrants counts child) = length counts"
  by (simp add: countAsteroid_def split: option.splits)

lemma countAsteroid_nth:
  assumes len: "length counts = length quadrants" and i: "i < length quadrants"
    and sub: "\<And>j x y. j < length quadrants \<Longrightarrow> Contains (quadrants ! j) x y \<Longrightarrow> Contains genBounds x y"
  shows "countAsteroid innerBounds genBounds quadrants counts child ! i
         = counts ! i + (if countedIn innerBounds quadrants i child then 1 else 0)"
proof (cases child)
  case None
  then show ?thesis by (simp add: countAsteroid_def countedIn_def)
next
  case (Some a)
  show ?thesis
  proof (cases "active a \<and> physBody a \<noteq> None \<and> \<not> Contains innerBounds (posX a) (posY a)")
    case False
    with Some show ?thesis by (auto simp: countAsteroid_def countedIn_def)
  next
    case live: True
    have fq: "findQuadrant quadrants (posX a) (posY a) 0 = Some j \<longleftrightarrow>
        j < length quadrants \<and> Contains (quadrants ! j) (posX a) (posY a)
        \<and> (\<forall>m < j. \<not> Contains (quadrants ! m) (posX a) (posY a))" for j
      using findQuadrant_Some_iff [of quadrants "posX a" "posY a" 0 j] by simp
    show ?thesis
    proof (cases "findQuadrant quadrants (posX a) (posY a) 0")
      case None
      then have "\<not> countedIn innerBounds quadrants i child"
        using fq [of i] i Some by (simp add: countedIn_def)
      with None Some live show ?thesis by (simp add: countAsteroid_def)
    next
      case (Some j)
      with fq [of j] have j: "j < length quadrants" "Contains (quadrants ! j) (posX a) (posY a)"
        by simp_all
      then have gen: "Contains genBounds (posX a) (posY a)" by (rule sub)
      have "countedIn innerBounds quadrants i child \<longleftrightarrow> i = j"
        using fq [of i] i Some live \<open>child = Some a\<close> by (auto simp: countedIn_def)
      with Some live gen \<open>child = Some a\<close> j(1) len i show ?thesis
        by (auto simp: countAsteroid_def nth_list_update)
    qed
  qed
qed

lemma foldl_countAsteroid_nth:
  assumes i: "i < length quadrants"
    and sub: "\<And>j x y. j < length quadrants \<Longrightarrow> Contains (quadrants ! j) x y \<Longrightarrow> Contains genBounds x y"
  shows "length counts = length quadrants \<Longrightarrow>
         foldl (countAsteroid innerBounds genBounds quadrants) counts existing ! i
         = counts ! i + int (length (filter (countedIn innerBounds quadrants i) existing))"
proof (induction existing arbitrary: counts)
  case Nil
  show ?case by simp
next
  case (Cons child existing)
  have len': "length (countAsteroid innerBounds genBounds quadrants counts child) = length quadrants"
    using Cons.prems by (simp add: length_countAsteroid)
  from Cons.IH [OF len'] countAsteroid_nth [OF Cons.prems i sub, where innerBounds = innerBounds and child = child]
  show ?case by simp
qed

lemma asteroidCountsOf_nth:
  assumes "i < 4"
  shows "asteroidCountsOf (innerBoundsOf worldView) (genBoundsOf worldView p)
           (quadrantsOf worldView p) existing ! i
         = int (length (filter (countedIn (innerBoundsOf worldView) (quadrantsOf worldView p) i) existing))"
proof -
  have i: "i < length (quadrantsOf worldView p)" using assms by (simp add: length_quadrantsOf)
  have sub: "\<And>j x y. j < length (quadrantsOf worldView p) \<Longrightarrow>
      Contains (quadrantsOf worldView p ! j) x y \<Longrightarrow> Contains (genBoundsOf worldView p) x y"
    by (simp add: length_quadrantsOf quadrant_in_genBounds)
  have len: "length [0, 0, 0, 0 :: int] = length (quadrantsOf worldView p)"
    by (simp add: length_quadrantsOf)
  from foldl_countAsteroid_nth [OF i sub len, where innerBounds = "innerBoundsOf worldView" and existing = existing] assms
  show ?thesis
    by (simp add: asteroidCountsOf_def nth_Cons' )
qed

lemma spawnNeeded_calls:
  "spawnNeeded w bounds i n = (w', calls) \<Longrightarrow>
     map fst calls = replicate n i \<and> (\<forall>c \<in> set calls. fst (snd c) = bounds)"
proof (induction n arbitrary: w w' calls)
  case 0
  then show ?case by simp
next
  case (Suc n)
  obtain w1 result where s1: "spawnAsteroidInRegion w bounds = (w1, result)"
    by (cases "spawnAsteroidInRegion w bounds")
  obtain w2 calls2 where s2: "spawnNeeded w1 bounds i n = (w2, calls2)"
    by (cases "spawnNeeded w1 bounds i n")
  from Suc.prems s1 s2 have "calls = (i, bounds, result) # calls2"
    by simp
  with Suc.IH [OF s2] show ?case by simp
qed

lemma fillQuadrants_calls:
  "fillQuadrants w quadrants counts i0 = (w', calls) \<Longrightarrow>
     length (filter (\<lambda>c. fst c = i) calls)
       = (if i0 \<le> i \<and> i < length quadrants
          then nat (TARGET_ASTEROIDS_PER_QUADRANT - counts ! i) else 0)
     \<and> (\<forall>c \<in> set calls. fst c < length quadrants \<and> fst (snd c) = quadrants ! fst c)"
proof (induction w quadrants counts i0 arbitrary: w' calls rule: fillQuadrants.induct)
  case (1 w quadrants counts i0)
  note unf = fillQuadrants.simps [of w quadrants counts i0]
  show ?case
  proof (cases "i0 < length quadrants")
    case False
    with "1.prems" show ?thesis unfolding unf by auto
  next
    case lt: True
    show ?thesis
    proof (cases "TARGET_ASTEROIDS_PER_QUADRANT - counts ! i0 > 0")
      case False
      with "1.prems" lt have rest: "fillQuadrants w quadrants counts (i0 + 1) = (w', calls)"
        unfolding unf by (simp add: Let_def)
      from "1.IH"(2) [OF lt refl refl False rest] False lt
      show ?thesis by (auto simp: not_less Suc_le_eq le_less)
    next
      case True
      obtain w1 calls1 where s1: "spawnNeeded w (quadrants ! i0) i0
          (nat (TARGET_ASTEROIDS_PER_QUADRANT - counts ! i0)) = (w1, calls1)"
        by (cases "spawnNeeded w (quadrants ! i0) i0 (nat (TARGET_ASTEROIDS_PER_QUADRANT - counts ! i0))")
      obtain w2 calls2 where s2: "fillQuadrants w1 quadrants counts (i0 + 1) = (w2, calls2)"
        by (cases "fillQuadrants w1 quadrants counts (i0 + 1)")
      from "1.prems" lt True s1 s2 have calls: "calls = calls1 @ calls2"
        unfolding unf by (simp add: Let_def)
      from spawnNeeded_calls [OF s1] have c1: "map fst calls1
          = replicate (nat (TARGET_ASTEROIDS_PER_QUADRANT - counts ! i0)) i0"
          "\<forall>c \<in> set calls1. fst (snd c) = quadrants ! i0"
        by simp_all
      have f1: "length (filter (\<lambda>c. fst c = i) calls1)
          = (if i = i0 then nat (TARGET_ASTEROIDS_PER_QUADRANT - counts ! i0) else 0)"
      proof -
        have "length (filter (\<lambda>c. fst c = i) calls1) = length (filter (\<lambda>j. j = i) (map fst calls1))"
          by (simp add: filter_map comp_def)
        also have "\<dots> = (if i = i0 then nat (TARGET_ASTEROIDS_PER_QUADRANT - counts ! i0) else 0)"
          unfolding c1(1) by (auto simp: filter_replicate)
        finally show ?thesis .
      qed
      have idx1: "\<forall>c \<in> set calls1. fst c = i0"
      proof
        fix c assume "c \<in> set calls1"
        then have "fst c \<in> set (map fst calls1)" by simp
        then show "fst c = i0" unfolding c1(1) by simp
      qed
      from "1.IH"(1) [OF lt refl refl True s1 [symmetric] refl s2]
      have f2: "length (filter (\<lambda>c. fst c = i) calls2)
          = (if i0 + 1 \<le> i \<and> i < length quadrants
             then nat (TARGET_ASTEROIDS_PER_QUADRANT - counts ! i) else 0)"
        and idx2: "\<forall>c \<in> set calls2. fst c < length quadrants \<and> fst (snd c) = quadrants ! fst c"
        by simp_all
      from f1 f2 lt have "length (filter (\<lambda>c. fst c = i) calls)
         = (if i0 \<le> i \<and> i < length quadrants
          then nat (TARGET_ASTEROIDS_PER_QUADRANT - counts ! i) else 0)"
        unfolding calls by (auto simp: not_less)
      moreover from idx1 idx2 c1(2) lt
      have "\<forall>c \<in> set calls. fst c < length quadrants \<and> fst (snd c) = quadrants ! fst c"
        unfolding calls by auto
      ultimately show ?thesis by blast
    qed
  qed
qed


text \<open>
  The spawn loops run \<open>spawnAsteroidInRegion\<close> once for each rectangle of the list of
  requests, in order, each call on the world the previous one left.
\<close>

lemma spawnNeeded_run:
  "fst (spawnNeeded w bounds i n)
     = foldl (\<lambda>v r. fst (spawnAsteroidInRegion v r)) w (replicate n bounds)
   \<and> map (\<lambda>c. (fst c, fst (snd c))) (snd (spawnNeeded w bounds i n)) = replicate n (i, bounds)"
proof (induction n arbitrary: w)
  case 0
  show ?case by simp
next
  case (Suc n)
  obtain w1 result where s1: "spawnAsteroidInRegion w bounds = (w1, result)"
    by (cases "spawnAsteroidInRegion w bounds")
  obtain w2 calls2 where s2: "spawnNeeded w1 bounds i n = (w2, calls2)"
    by (cases "spawnNeeded w1 bounds i n")
  from Suc.IH [of w1] s1 s2 show ?case by simp
qed

lemma fillQuadrants_run:
  "fst (fillQuadrants w quadrants counts i0)
     = foldl (\<lambda>v r. fst (spawnAsteroidInRegion v r)) w
         (concat (map (\<lambda>j. replicate (nat (TARGET_ASTEROIDS_PER_QUADRANT - counts ! j)) (quadrants ! j))
                      [i0 ..< length quadrants]))
   \<and> map (\<lambda>c. (fst c, fst (snd c))) (snd (fillQuadrants w quadrants counts i0))
     = concat (map (\<lambda>j. replicate (nat (TARGET_ASTEROIDS_PER_QUADRANT - counts ! j)) (j, quadrants ! j))
                   [i0 ..< length quadrants])"
proof (induction w quadrants counts i0 rule: fillQuadrants.induct)
  case (1 w quadrants counts i0)
  note unf = fillQuadrants.simps [of w quadrants counts i0]
  show ?case
  proof (cases "i0 < length quadrants")
    case False
    then show ?thesis unfolding unf by simp
  next
    case lt: True
    then have upt: "[i0 ..< length quadrants] = i0 # [i0 + 1 ..< length quadrants]"
      by (simp add: upt_conv_Cons)
    show ?thesis
    proof (cases "TARGET_ASTEROIDS_PER_QUADRANT - counts ! i0 > 0")
      case False
      then have z: "nat (TARGET_ASTEROIDS_PER_QUADRANT - counts ! i0) = 0" by simp
      from "1.IH"(2) [OF lt refl refl False] False lt
      show ?thesis unfolding unf upt by (simp add: Let_def z)
    next
      case True
      obtain w1 calls1 where s1: "spawnNeeded w (quadrants ! i0) i0
          (nat (TARGET_ASTEROIDS_PER_QUADRANT - counts ! i0)) = (w1, calls1)"
        by (cases "spawnNeeded w (quadrants ! i0) i0 (nat (TARGET_ASTEROIDS_PER_QUADRANT - counts ! i0))")
      obtain w2 calls2 where s2: "fillQuadrants w1 quadrants counts (i0 + 1) = (w2, calls2)"
        by (cases "fillQuadrants w1 quadrants counts (i0 + 1)")
      from spawnNeeded_run [of w "quadrants ! i0" i0 "nat (TARGET_ASTEROIDS_PER_QUADRANT - counts ! i0)"] s1
      have r1: "w1 = foldl (\<lambda>v r. fst (spawnAsteroidInRegion v r)) w
                   (replicate (nat (TARGET_ASTEROIDS_PER_QUADRANT - counts ! i0)) (quadrants ! i0))"
          "map (\<lambda>c. (fst c, fst (snd c))) calls1
             = replicate (nat (TARGET_ASTEROIDS_PER_QUADRANT - counts ! i0)) (i0, quadrants ! i0)"
        by simp_all
      from "1.IH"(1) [OF lt refl refl True s1 [symmetric] refl] s2
      have r2: "w2 = foldl (\<lambda>v r. fst (spawnAsteroidInRegion v r)) w1
                   (concat (map (\<lambda>j. replicate (nat (TARGET_ASTEROIDS_PER_QUADRANT - counts ! j)) (quadrants ! j))
                      [i0 + 1 ..< length quadrants]))"
          "map (\<lambda>c. (fst c, fst (snd c))) calls2
             = concat (map (\<lambda>j. replicate (nat (TARGET_ASTEROIDS_PER_QUADRANT - counts ! j)) (j, quadrants ! j))
                   [i0 + 1 ..< length quadrants])"
        by simp_all
      have res: "fillQuadrants w quadrants counts i0 = (w2, calls1 @ calls2)"
        unfolding unf using lt True s1 s2 by (simp add: Let_def)
      show ?thesis
        unfolding res upt using r1 r2 by simp
    qed
  qed
qed

lemma tick_run:
  assumes cam: "camera w = Some worldView"
    and pl: "thePlayer w = Some p" "playerHasBody p"
  shows "checkAndPopulateDistantAreasTraced w
           = fillQuadrants w (quadrantsOf worldView p)
               (asteroidCountsOf (innerBoundsOf worldView) (genBoundsOf worldView p)
                  (quadrantsOf worldView p) (children w)) 0"
  using cam pl by (simp add: checkAndPopulateDistantAreasTraced_def Let_def)

lemma needed_count:
  "nat (TARGET_ASTEROIDS_PER_QUADRANT - int k) = (if k < 4 then 4 - k else 0)"
  unfolding TARGET_ASTEROIDS_PER_QUADRANT_def by auto

lemma tick_requests:
  assumes cam: "camera w = Some worldView"
    and pl: "thePlayer w = Some p" "playerHasBody p"
  shows "checkAndPopulateDistantAreas w
           = foldl (\<lambda>v r. fst (spawnAsteroidInRegion v r)) w
               (concat (map (\<lambda>i. replicate
                   (if length (filter (countedIn (innerBoundsOf worldView) (quadrantsOf worldView p) i)
                                 (children w)) < 4
                    then 4 - length (filter (countedIn (innerBoundsOf worldView) (quadrantsOf worldView p) i)
                                 (children w))
                    else 0)
                   (quadrantsOf worldView p ! i)) [0 ..< 4]))"
    and "map (\<lambda>c. (fst c, fst (snd c))) (snd (checkAndPopulateDistantAreasTraced w))
           = concat (map (\<lambda>i. replicate
                   (if length (filter (countedIn (innerBoundsOf worldView) (quadrantsOf worldView p) i)
                                 (children w)) < 4
                    then 4 - length (filter (countedIn (innerBoundsOf worldView) (quadrantsOf worldView p) i)
                                 (children w))
                    else 0)
                   (i, quadrantsOf worldView p ! i)) [0 ..< 4])"
proof -
  define counts where "counts = asteroidCountsOf (innerBoundsOf worldView) (genBoundsOf worldView p)
           (quadrantsOf worldView p) (children w)"
  have ck: "nat (TARGET_ASTEROIDS_PER_QUADRANT - counts ! i)
      = (if length (filter (countedIn (innerBoundsOf worldView) (quadrantsOf worldView p) i)
                                 (children w)) < 4
                    then 4 - length (filter (countedIn (innerBoundsOf worldView) (quadrantsOf worldView p) i)
                                 (children w))
                    else 0)" if "i < 4" for i
    unfolding counts_def asteroidCountsOf_nth [OF that] by (rule needed_count)
  have m1: "map (\<lambda>j. replicate (nat (TARGET_ASTEROIDS_PER_QUADRANT - counts ! j)) (quadrantsOf worldView p ! j))
                [0 ..< 4]
          = map (\<lambda>i. replicate
                   (if length (filter (countedIn (innerBoundsOf worldView) (quadrantsOf worldView p) i)
                                 (children w)) < 4
                    then 4 - length (filter (countedIn (innerBoundsOf worldView) (quadrantsOf worldView p) i)
                                 (children w))
                    else 0)
                   (quadrantsOf worldView p ! i)) [0 ..< 4]"
    by (rule map_cong) (simp_all add: ck)
  have m2: "map (\<lambda>j. replicate (nat (TARGET_ASTEROIDS_PER_QUADRANT - counts ! j)) (j, quadrantsOf worldView p ! j))
                [0 ..< 4]
          = map (\<lambda>i. replicate
                   (if length (filter (countedIn (innerBoundsOf worldView) (quadrantsOf worldView p) i)
                                 (children w)) < 4
                    then 4 - length (filter (countedIn (innerBoundsOf worldView) (quadrantsOf worldView p) i)
                                 (children w))
                    else 0)
                   (i, quadrantsOf worldView p ! i)) [0 ..< 4]"
    by (rule map_cong) (simp_all add: ck)
  note run = fillQuadrants_run [of w "quadrantsOf worldView p" counts 0, unfolded length_quadrantsOf]
  from run show "checkAndPopulateDistantAreas w
           = foldl (\<lambda>v r. fst (spawnAsteroidInRegion v r)) w
               (concat (map (\<lambda>i. replicate
                   (if length (filter (countedIn (innerBoundsOf worldView) (quadrantsOf worldView p) i)
                                 (children w)) < 4
                    then 4 - length (filter (countedIn (innerBoundsOf worldView) (quadrantsOf worldView p) i)
                                 (children w))
                    else 0)
                   (quadrantsOf worldView p ! i)) [0 ..< 4]))"
    unfolding checkAndPopulateDistantAreas_def tick_run [OF cam pl] counts_def [symmetric] m1 [symmetric]
    by blast
  from run show "map (\<lambda>c. (fst c, fst (snd c))) (snd (checkAndPopulateDistantAreasTraced w))
           = concat (map (\<lambda>i. replicate
                   (if length (filter (countedIn (innerBoundsOf worldView) (quadrantsOf worldView p) i)
                                 (children w)) < 4
                    then 4 - length (filter (countedIn (innerBoundsOf worldView) (quadrantsOf worldView p) i)
                                 (children w))
                    else 0)
                   (i, quadrantsOf worldView p ! i)) [0 ..< 4])"
    unfolding tick_run [OF cam pl] counts_def [symmetric] m2 [symmetric]
    by blast
qed

text \<open>
  Claim C1, as amended. On a tick of the density controller (camera present, player
  with a body), let \<open>k i\<close> be the number of live asteroids outside the inner-exclusion
  rectangle that quadrant \<open>i\<close> of the generation window holds, an asteroid on a border
  shared by two quadrants being held by the earlier one only (top-left, top-right,
  bottom-left, bottom-right). Then the tick calls \<open>spawnAsteroidInRegion\<close> exactly
  \<open>4 - k i\<close> times with the rectangle of quadrant \<open>i\<close> when \<open>k i\<close> is below 4 and not at
  all otherwise, quadrant after quadrant: the world it returns is the world these calls
  produce, each made on the world the previous one left, and the recorded calls are
  these calls.
\<close>

theorem density_tick_requests:
  assumes cam: "camera w = Some worldView"
    and pl: "thePlayer w = Some p" "playerHasBody p"
  shows "let quadrants = quadrantsOf worldView p;
             k = (\<lambda>i. length (filter (countedIn (innerBoundsOf worldView) quadrants i) (children w)));
             needed = (\<lambda>i. if k i < 4 then 4 - k i else 0)
         in checkAndPopulateDistantAreas w
              = foldl (\<lambda>v r. fst (spawnAsteroidInRegion v r)) w
                  (concat (map (\<lambda>i. replicate (needed i) (quadrants ! i)) [0 ..< 4]))
          \<and> map (\<lambda>c. (fst c, fst (snd c))) (snd (checkAndPopulateDistantAreasTraced w))
              = concat (map (\<lambda>i. replicate (needed i) (i, quadrants ! i)) [0 ..< 4])
          \<and> (\<forall>i < 4. length (filter (\<lambda>c. fst c = i) (snd (checkAndPopulateDistantAreasTraced w)))
                        = needed i)"
proof -
  define counts where "counts = asteroidCountsOf (innerBoundsOf worldView) (genBoundsOf worldView p)
           (quadrantsOf worldView p) (children w)"
  obtain w' calls where fq: "fillQuadrants w (quadrantsOf worldView p) counts 0 = (w', calls)"
    by (cases "fillQuadrants w (quadrantsOf worldView p) counts 0")
  have tr: "checkAndPopulateDistantAreasTraced w = (w', calls)"
    unfolding tick_run [OF cam pl] counts_def [symmetric] by (rule fq)
  have cnt: "length (filter (\<lambda>c. fst c = i) (snd (checkAndPopulateDistantAreasTraced w)))
      = (if length (filter (countedIn (innerBoundsOf worldView) (quadrantsOf worldView p) i)
                                 (children w)) < 4
                    then 4 - length (filter (countedIn (innerBoundsOf worldView) (quadrantsOf worldView p) i)
                                 (children w))
                    else 0)" if "i < 4" for i
  proof -
    from fillQuadrants_calls [OF fq, of i] that
    have "length (filter (\<lambda>c. fst c = i) calls) = nat (TARGET_ASTEROIDS_PER_QUADRANT - counts ! i)"
      by (simp add: length_quadrantsOf)
    then show ?thesis
      unfolding tr counts_def asteroidCountsOf_nth [OF that] needed_count by simp
  qed
  from tick_requests [OF cam pl] cnt show ?thesis
    unfolding Let_def by blast
qed

lemma oneAsteroidWorld_counts:
  "length (filter (countedIn (innerBoundsOf (mkRectangle 0 0 800 600))
       (quadrantsOf (mkRectangle 0 0 800 600)
          \<lparr>playerX = 400, playerY = 300, playerActive = True,
            playerHasBody = True, playerSpeed = 0, playerVelAngle = 0\<rparr>) i)
       (children oneAsteroidWorld)) = (if i = 0 then 1 else 0)"
  if "i < 4"
proof -
  from that consider "i = 0" | "i = 1" | "i = 2" | "i = 3" by linarith
  then show ?thesis
    by cases (simp_all add: children_def oneAsteroidWorld_def countedIn_def quadrantsOf_def
        genBoundsOf_def innerBoundsOf_def Let_def mkRectangle_def left_def top_of_def
        PROACTIVE_GENERATION_RADIUS_MULTIPLIER_def PROACTIVE_INNER_BUFFER_def SPAWN_BUFFER_def
        circleAsteroid_def Contains_def)
qed

theorem density_tick_requests_witness:
  "checkAndPopulateDistantAreas oneAsteroidWorld
     = foldl (\<lambda>v r. fst (spawnAsteroidInRegion v r)) oneAsteroidWorld
         (replicate 3 (quadrantsOf (mkRectangle 0 0 800 600)
              \<lparr>playerX = 400, playerY = 300, playerActive = True,
                playerHasBody = True, playerSpeed = 0, playerVelAngle = 0\<rparr> ! 0)
          @ replicate 4 (quadrantsOf (mkRectangle 0 0 800 600)
              \<lparr>playerX = 400, playerY = 300, playerActive = True,
                playerHasBody = True, playerSpeed = 0, playerVelAngle = 0\<rparr> ! 1)
          @ replicate 4 (quadrantsOf (mkRectangle 0 0 800 600)
              \<lparr>playerX = 400, playerY = 300, playerActive = True,
                playerHasBody = True, playerSpeed = 0, playerVelAngle = 0\<rparr> ! 2)
          @ replicate 4 (quadrantsOf (mkRectangle 0 0 800 600)
              \<lparr>playerX = 400, playerY = 300, playerActive = True,
                playerHasBody = True, playerSpeed = 0, playerVelAngle = 0\<rparr> ! 3))
   \<and> length (filter (\<lambda>c. fst c = 0) (snd (checkAndPopulateDistantAreasTraced oneAsteroidWorld))) = 3
   \<and> length (filter (\<lambda>c. fst c = 1) (snd (checkAndPopulateDistantAreasTraced oneAsteroidWorld))) = 4"
proof -
  let ?p = "\<lparr>playerX = 400, playerY = 300, playerActive = True,
                        playerHasBody = True, playerSpeed = 0, playerVelAngle = 0\<rparr>"
  let ?v = "mkRectangle 0 0 800 600"
  have cam: "camera oneAsteroidWorld = Some ?v"
    and pl: "thePlayer oneAsteroidWorld = Some ?p" "playerHasBody ?p"
    by (simp_all add: oneAsteroidWorld_def startWorld_def)
  have upt4: "[0 ..< 4] = [0, 1, 2, 3::nat]" by (simp add: upt_rec)
  from density_tick_requests [OF cam pl]
  show ?thesis
    unfolding Let_def upt4 by (simp add: oneAsteroidWorld_counts)
qed

lemma borderWorld_counts:
  "length (filter (countedIn (innerBoundsOf (mkRectangle 0 0 800 600))
       (quadrantsOf (mkRectangle 0 0 800 600)
          \<lparr>playerX = 400, playerY = 300, playerActive = True,
            playerHasBody = True, playerSpeed = 0, playerVelAngle = 0\<rparr>) i)
       (children borderWorld)) = (if i = 0 then 1 else 0)"
  if "i < 4"
proof -
  from that consider "i = 0" | "i = 1" | "i = 2" | "i = 3" by linarith
  then show ?thesis
    by cases (simp_all add: children_def borderWorld_def countedIn_def quadrantsOf_def
        genBoundsOf_def innerBoundsOf_def Let_def mkRectangle_def left_def top_of_def
        PROACTIVE_GENERATION_RADIUS_MULTIPLIER_def PROACTIVE_INNER_BUFFER_def SPAWN_BUFFER_def
        circleAsteroid_def Contains_def)
qed

text \<open>
  Claim C1 as stated fails on a shared border. In the start world with one live
  asteroid at (400, -300), outside the inner rectangle, the rectangle of the top-right
  quadrant contains the asteroid, so the quadrant contains \<open>k = 1\<close> asteroid, below 4;
  yet the tick makes 4 calls for that quadrant, not \<open>4 - k = 3\<close>: the counting loop
  stops at the first quadrant whose rectangle contains the asteroid, the top-left one.
\<close>

theorem border_asteroid_counted_once:
  "length (filter (quadrantContains (innerBoundsOf (mkRectangle 0 0 800 600))
       (quadrantsOf (mkRectangle 0 0 800 600)
          \<lparr>playerX = 400, playerY = 300, playerActive = True,
            playerHasBody = True, playerSpeed = 0, playerVelAngle = 0\<rparr> ! 1))
       (children borderWorld)) = 1
   \<and> length (filter (\<lambda>c. fst c = 1) (snd (checkAndPopulateDistantAreasTraced borderWorld))) = 4
   \<and> checkAndPopulateDistantAreas borderWorld
     = foldl (\<lambda>v r. fst (spawnAsteroidInRegion v r)) borderWorld
         (replicate 3 (quadrantsOf (mkRectangle 0 0 800 600)
              \<lparr>playerX = 400, playerY = 300, playerActive = True,
                playerHasBody = True, playerSpeed = 0, playerVelAngle = 0\<rparr> ! 0)
          @ replicate 4 (quadrantsOf (mkRectangle 0 0 800 600)
              \<lparr>playerX = 400, playerY = 300, playerActive = True,
                playerHasBody = True, playerSpeed = 0, playerVelAngle = 0\<rparr> ! 1)
          @ replicate 4 (quadrantsOf (mkRectangle 0 0 800 600)
              \<lparr>playerX = 400, playerY = 300, playerActive = True,
                playerHasBody = True, playerSpeed = 0, playerVelAngle = 0\<rparr> ! 2)
          @ replicate 4 (quadrantsOf (mkRectangle 0 0 800 600)
              \<lparr>playerX = 400, playerY = 300, playerActive = True,
                playerHasBody = True, playerSpeed = 0, playerVelAngle = 0\<rparr> ! 3))"
proof -
  let ?p = "\<lparr>playerX = 400, playerY = 300, playerActive = True,
                        playerHasBody = True, playerSpeed = 0, playerVelAngle = 0\<rparr>"
  let ?v = "mkRectangle 0 0 800 600"
  have cam: "camera borderWorld = Some ?v"
    and pl: "thePlayer borderWorld = Some ?p" "playerHasBody ?p"
    by (simp_all add: borderWorld_def startWorld_def)
  have upt4: "[0 ..< 4] = [0, 1, 2, 3::nat]" by (simp add: upt_rec)
  have k: "length (filter (quadrantContains (innerBoundsOf ?v) (quadrantsOf ?v ?p ! 1))
       (children borderWorld)) = 1"
    by (simp add: children_def borderWorld_def quadrantContains_def quadrantsOf_def
        genBoundsOf_def innerBoundsOf_def Let_def mkRectangle_def left_def top_of_def
        PROACTIVE_GENERATION_RADIUS_MULTIPLIER_def PROACTIVE_INNER_BUFFER_def SPAWN_BUFFER_def
        circleAsteroid_def Contains_def)
  have calls: "map (\<lambda>c. (fst c, fst (snd c))) (snd (checkAndPopulateDistantAreasTraced borderWorld))
      = replicate 3 (0, quadrantsOf ?v ?p ! 0) @ replicate 4 (1, quadrantsOf ?v ?p ! 1)
        @ replicate 4 (2, quadrantsOf ?v ?p ! 2) @ replicate 4 (3, quadrantsOf ?v ?p ! 3)"
    unfolding tick_requests(2) [OF cam pl] upt4 by (simp add: borderWorld_counts)
  have "length (filter (\<lambda>c. fst c = 1) (snd (checkAndPopulateDistantAreasTraced borderWorld)))
      = length (filter (\<lambda>c. fst c = 1)
          (map (\<lambda>c. (fst c, fst (snd c))) (snd (checkAndPopulateDistantAreasTraced borderWorld))))"
    by (simp add: filter_map comp_def)
  also have "\<dots> = 4" unfolding calls by simp
  finally have four: "length (filter (\<lambda>c. fst c = 1) (snd (checkAndPopulateDistantAreasTraced borderWorld))) = 4" .
  have run: "checkAndPopulateDistantAreas borderWorld
     = foldl (\<lambda>v r. fst (spawnAsteroidInRegion v r)) borderWorld
         (replicate 3 (quadrantsOf ?v ?p ! 0) @ replicate 4 (quadrantsOf ?v ?p ! 1)
          @ replicate 4 (quadrantsOf ?v ?p ! 2) @ replicate 4 (quadrantsOf ?v ?p ! 3))"
    unfolding tick_requests(1) [OF cam pl] upt4 by (simp add: borderWorld_counts)
  from k four run show ?thesis by blast
qed

section \<open>Bullet hits and the flash revert: facts\<close>

lemma handle_flashing_survivor:
  assumes "bulletObjects w b = Some bullet" "bulletActive bullet"
    and "objects w a = Some asteroid" "active asteroid" "physBody asteroid \<noteq> None"
    and "dataHitPoints asteroid = Some n" "1 < n" "dataIsHit asteroid = Some True"
  shows "handleBulletAsteroidCollision w b a
         = (destroyBullet w b)\<lparr>objects := (objects w)(a := Some (asteroid\<lparr>dataHitPoints := Some (n - 1)\<rparr>))\<rparr>"
  using assms
  by (auto simp: handleBulletAsteroidCollision_def Let_def destroyBullet_def split: option.splits)

text \<open>
  Claim C10. When an active bullet hits a live asteroid that is flashing (\<open>isHit\<close> is
  true) and has more than one hit point left, the handler destroys the bullet and
  lowers the asteroid's \<open>hitPoints\<close> by one, and that is all: no callback is scheduled,
  the group and the explosions are as before, every other object is untouched, and the
  asteroid keeps its drawing, its \<open>isHit\<close> flag and its points.
\<close>

theorem hit_while_flashing_changes_only_hitPoints:
  assumes "bulletObjects w b = Some bullet" "bulletActive bullet"
    and "objects w a = Some asteroid" "active asteroid" "physBody asteroid \<noteq> None"
    and "dataHitPoints asteroid = Some n" "1 < n" "dataIsHit asteroid = Some True"
  shows "handleBulletAsteroidCollision w b a
           = (destroyBullet w b)\<lparr>objects := (objects w)(a := Some (asteroid\<lparr>dataHitPoints := Some (n - 1)\<rparr>))\<rparr>
         \<and> timers (handleBulletAsteroidCollision w b a) = timers w
         \<and> asteroidsGroup (handleBulletAsteroidCollision w b a) = asteroidsGroup w
         \<and> explosions (handleBulletAsteroidCollision w b a) = explosions w
         \<and> (\<forall>h. h \<noteq> a \<longrightarrow> objects (handleBulletAsteroidCollision w b a) h = objects w h)
         \<and> (\<exists>asteroid'. objects (handleBulletAsteroidCollision w b a) a = Some asteroid'
               \<and> asteroid' = asteroid\<lparr>dataHitPoints := Some (n - 1)\<rparr>
               \<and> shown asteroid' = shown asteroid
               \<and> dataIsHit asteroid' = Some True
               \<and> dataPoints asteroid' = dataPoints asteroid)"
  unfolding handle_flashing_survivor [OF assms]
  using assms by (simp add: destroyBullet_def)

lemma flashRevert_guard:
  assumes "objects w a = Some asteroid"
    and "\<not> (active asteroid \<and> (\<exists>n. dataHitPoints asteroid = Some n \<and> 0 < n))"
  shows "flashRevertCallback w a points = w"
  using assms by (auto simp: flashRevertCallback_def split: option.splits)

lemma flashRevertFirst_guard:
  assumes "objects w a = Some asteroid" "\<not> active asteroid"
  shows "flashRevertCallbackFirst w a points = w"
  using assms by (simp add: flashRevertCallbackFirst_def)

lemma flashRevertFirst_same:
  assumes "objects w a = Some asteroid"
    and "active asteroid \<longrightarrow> (\<exists>n. dataHitPoints asteroid = Some n \<and> 0 < n)"
  shows "flashRevertCallbackFirst w a points = flashRevertCallback w a points"
  using assms by (auto simp: flashRevertCallbackFirst_def flashRevertCallback_def)

lemma two_hits_then_revert:
  assumes b1: "bulletObjects w b1 = Some bullet1" "bulletActive bullet1"
    and b2: "bulletObjects w b2 = Some bullet2" "bulletActive bullet2" "b1 \<noteq> b2"
    and a: "objects w a = Some asteroid" "active asteroid" "physBody asteroid \<noteq> None"
      "dataHitPoints asteroid = Some 2" "dataPoints asteroid = Some pts" "dataIsHit asteroid = Some False"
  shows "(a, pts) \<in> set (timers (handleBulletAsteroidCollision (handleBulletAsteroidCollision w b1 a) b2 a))"
    and "a \<notin> set (asteroidsGroup (handleBulletAsteroidCollision (handleBulletAsteroidCollision w b1 a) b2 a))"
    and "\<exists>gone. objects (handleBulletAsteroidCollision (handleBulletAsteroidCollision w b1 a) b2 a) a = Some gone
           \<and> \<not> active gone"
proof -
  let ?w1 = "handleBulletAsteroidCollision w b1 a"
  let ?hit = "drawAsteroidShape (asteroid\<lparr>dataHitPoints := Some 1, dataIsHit := Some True\<rparr>) (Some pts)
                (Some (ASTEROID_HIT_FILL_COLOR, ASTEROID_HIT_FILL_ALPHA))"
  have w1: "?w1 = (destroyBullet w b1)\<lparr>objects := (objects w)(a := Some ?hit),
                                       timers := timers w @ [(a, pts)]\<rparr>"
    using b1 a by (auto simp: handleBulletAsteroidCollision_def Let_def destroyBullet_def)
  have hit: "active ?hit" "physBody ?hit \<noteq> None" "dataHitPoints ?hit = Some 1"
    using a by (simp_all add: drawAsteroidShape_def)
  have o1: "objects ?w1 a = Some ?hit" and bl1: "bulletObjects ?w1 b2 = Some bullet2"
    and t1: "timers ?w1 = timers w @ [(a, pts)]"
    unfolding w1 using b2 by (simp_all add: destroyBullet_def)
  let ?w2 = "handleBulletAsteroidCollision ?w1 b2 a"
  have t2: "timers ?w2 = timers ?w1" and g2: "a \<notin> set (asteroidsGroup ?w2)"
    and o2: "objects ?w2 a = Some (destroyObject (?hit\<lparr>dataHitPoints := Some 0\<rparr>))"
    using o1 bl1 b2(2) hit
    by (auto simp: handleBulletAsteroidCollision_def Let_def destroyBullet_def removeAsteroid_def)
  show "(a, pts) \<in> set (timers ?w2)" unfolding t2 t1 by simp
  show "a \<notin> set (asteroidsGroup ?w2)" by (rule g2)
  show "\<exists>gone. objects ?w2 a = Some gone \<and> \<not> active gone"
    unfolding o2 by (simp add: destroyObject_def)
qed


text \<open>
  Claim C9. The flash-revert callback changes nothing unless the asteroid it holds is
  active and has positive \<open>hitPoints\<close>: when either test fails the world after the
  callback is the world before it; the model has no operation that can throw there. In
  particular, when an asteroid with two hit points is hit (the flash and its revert are
  scheduled) and hit again (it is destroyed and leaves the group), the revert is still
  pending and firing its callback changes nothing.
\<close>

theorem flash_revert_checks_liveness:
  "(objects w a = None \<longrightarrow> flashRevertCallback w a points = w)
   \<and> (objects w a = Some asteroid
        \<and> \<not> (active asteroid \<and> (\<exists>n. dataHitPoints asteroid = Some n \<and> 0 < n))
      \<longrightarrow> flashRevertCallback w a points = w)
   \<and> (bulletObjects ws ba = Some bulletA \<and> bulletActive bulletA
        \<and> bulletObjects ws bb = Some bulletB \<and> bulletActive bulletB \<and> ba \<noteq> bb
        \<and> objects ws t = Some target \<and> active target \<and> physBody target \<noteq> None
        \<and> dataHitPoints target = Some 2 \<and> dataPoints target = Some pts
        \<and> dataIsHit target = Some False
      \<longrightarrow> (t, pts) \<in> set (timers (handleBulletAsteroidCollision (handleBulletAsteroidCollision ws ba t) bb t))
          \<and> t \<notin> set (asteroidsGroup (handleBulletAsteroidCollision (handleBulletAsteroidCollision ws ba t) bb t))
          \<and> flashRevertCallback (handleBulletAsteroidCollision (handleBulletAsteroidCollision ws ba t) bb t) t pts
              = handleBulletAsteroidCollision (handleBulletAsteroidCollision ws ba t) bb t)"
proof -
  have none: "objects w a = None \<longrightarrow> flashRevertCallback w a points = w"
    by (simp add: flashRevertCallback_def)
  have guard: "objects w a = Some asteroid
        \<and> \<not> (active asteroid \<and> (\<exists>n. dataHitPoints asteroid = Some n \<and> 0 < n))
      \<longrightarrow> flashRevertCallback w a points = w"
    using flashRevert_guard [of w a asteroid points] by blast
  let ?w2 = "handleBulletAsteroidCollision (handleBulletAsteroidCollision ws ba t) bb t"
  have scenario: "(t, pts) \<in> set (timers ?w2) \<and> t \<notin> set (asteroidsGroup ?w2)
          \<and> flashRevertCallback ?w2 t pts = ?w2"
    if h: "bulletObjects ws ba = Some bulletA \<and> bulletActive bulletA
        \<and> bulletObjects ws bb = Some bulletB \<and> bulletActive bulletB \<and> ba \<noteq> bb
        \<and> objects ws t = Some target \<and> active target \<and> physBody target \<noteq> None
        \<and> dataHitPoints target = Some 2 \<and> dataPoints target = Some pts
        \<and> dataIsHit target = Some False"
  proof -
    from h have facts: "bulletObjects ws ba = Some bulletA" "bulletActive bulletA"
        "bulletObjects ws bb = Some bulletB" "bulletActive bulletB" "ba \<noteq> bb"
        "objects ws t = Some target" "active target" "physBody target \<noteq> None"
        "dataHitPoints target = Some 2" "dataPoints target = Some pts" "dataIsHit target = Some False"
      by blast+
    note th = two_hits_then_revert [OF facts]
    from th(3) obtain gone where gone: "objects ?w2 t = Some gone" "\<not> active gone" by blast
    then have "flashRevertCallback ?w2 t pts = ?w2"
      using flashRevert_guard [of ?w2 t gone pts] by blast
    with th(1,2) show ?thesis by blast
  qed
  from none guard scenario show ?thesis by blast
qed

theorem flash_revert_checks_liveness_witness:
  "(0, squareOutline) \<in> set (timers (handleBulletAsteroidCollision
       (handleBulletAsteroidCollision (targetWorld 2) 0 0) 1 0))
   \<and> 0 \<notin> set (asteroidsGroup (handleBulletAsteroidCollision
       (handleBulletAsteroidCollision (targetWorld 2) 0 0) 1 0))
   \<and> flashRevertCallback (handleBulletAsteroidCollision
       (handleBulletAsteroidCollision (targetWorld 2) 0 0) 1 0) 0 squareOutline
      = handleBulletAsteroidCollision (handleBulletAsteroidCollision (targetWorld 2) 0 0) 1 0
   \<and> flashRevertCallback (targetWorld 0) 0 squareOutline = targetWorld 0
   \<and> flashRevertCallback (targetWorld 2) 7 squareOutline = targetWorld 2"
proof -
  let ?bl = "\<lparr>bulletX = 1000, bulletY = 0, bulletActive = True, bulletHasBody = True\<rparr>"
  let ?tg = "\<lambda>n. (circleAsteroid 1000 0 20)\<lparr>dataCategory := Some M, dataHitPoints := Some n,
                                dataPoints := Some squareOutline, dataIsHit := Some False\<rparr>"
  have sc: "bulletObjects (targetWorld 2) 0 = Some ?bl \<and> bulletActive ?bl
        \<and> bulletObjects (targetWorld 2) 1 = Some ?bl \<and> bulletActive ?bl \<and> (0::nat) \<noteq> 1
        \<and> objects (targetWorld 2) 0 = Some (?tg 2) \<and> active (?tg 2) \<and> physBody (?tg 2) \<noteq> None
        \<and> dataHitPoints (?tg 2) = Some 2 \<and> dataPoints (?tg 2) = Some squareOutline
        \<and> dataIsHit (?tg 2) = Some False"
    by (simp add: targetWorld_def circleAsteroid_def)
  have dead: "objects (targetWorld 0) 0 = Some (?tg 0)
        \<and> \<not> (active (?tg 0) \<and> (\<exists>n. dataHitPoints (?tg 0) = Some n \<and> 0 < n))"
    by (simp add: targetWorld_def circleAsteroid_def)
  have none: "objects (targetWorld 2) 7 = None"
    by (simp add: targetWorld_def startWorld_def)
  from flash_revert_checks_liveness [where w = "targetWorld 0" and a = 0 and asteroid = "?tg 0"
      and points = squareOutline and ws = "targetWorld 2" and ba = 0 and bb = 1 and t = 0
      and bulletA = ?bl and bulletB = ?bl and target = "?tg 2" and pts = squareOutline]
    flash_revert_checks_liveness [where w = "targetWorld 2" and a = 7 and points = squareOutline]
    sc dead none
  show ?thesis by blast
qed

theorem hit_while_flashing_witness:
  "handleBulletAsteroidCollision (handleBulletAsteroidCollision (targetWorld 3) 0 0) 1 0
     = (destroyBullet (handleBulletAsteroidCollision (targetWorld 3) 0 0) 1)
         \<lparr>objects := (objects (handleBulletAsteroidCollision (targetWorld 3) 0 0))
            (0 := Some ((the (objects (handleBulletAsteroidCollision (targetWorld 3) 0 0) 0))
                          \<lparr>dataHitPoints := Some 1\<rparr>))\<rparr>
   \<and> timers (handleBulletAsteroidCollision (handleBulletAsteroidCollision (targetWorld 3) 0 0) 1 0)
       = [(0, squareOutline)]"
proof -
  let ?w1 = "handleBulletAsteroidCollision (targetWorld 3) 0 0"
  let ?bl = "\<lparr>bulletX = 1000, bulletY = 0, bulletActive = True, bulletHasBody = True\<rparr>"
  let ?a1 = "drawAsteroidShape ((circleAsteroid 1000 0 20)\<lparr>dataCategory := Some M, dataHitPoints := Some 2,
                                dataPoints := Some squareOutline, dataIsHit := Some True\<rparr>)
               (Some squareOutline) (Some (ASTEROID_HIT_FILL_COLOR, ASTEROID_HIT_FILL_ALPHA))"
  have w1: "bulletObjects ?w1 1 = Some ?bl" "objects ?w1 0 = Some ?a1" "timers ?w1 = [(0, squareOutline)]"
    by (simp_all add: handleBulletAsteroidCollision_def targetWorld_def startWorld_def
        circleAsteroid_def destroyBullet_def Let_def)
  have a1: "active ?a1" "physBody ?a1 \<noteq> None" "dataHitPoints ?a1 = Some 2" "(1::int) < 2"
      "dataIsHit ?a1 = Some True"
    by (simp_all add: drawAsteroidShape_def circleAsteroid_def squareOutline_def)
  have bl: "bulletActive ?bl" by simp
  from hit_while_flashing_changes_only_hitPoints [OF w1(1) bl w1(2) a1] w1
  show ?thesis by (simp add: destroyBullet_def)
qed

section \<open>Startup spawning and the off-screen fallback: facts\<close>

lemma viewRetry_exhaust:
  "(\<forall>pos. DistanceBetween (FloatBetween (rnd pos) visualSize (spawnAreaWidth - visualSize))
             (FloatBetween (rnd (pos + 1)) visualSize (spawnAreaHeight - visualSize))
             (spawnAreaWidth / 2) (spawnAreaHeight / 2) < PLAYER_INITIAL_SAFE_ZONE_RADIUS
         \<or> overlapsExact visualSize cat (FloatBetween (rnd pos) visualSize (spawnAreaWidth - visualSize))
             (FloatBetween (rnd (pos + 1)) visualSize (spawnAreaHeight - visualSize)) existing)
   \<Longrightarrow> viewRetry rnd existing spawnAreaWidth spawnAreaHeight visualSize cat retry pos
       = (None, pos + 2 * (SPAWN_MAX_RETRIES * 2 - retry))"
proof (induction rnd existing spawnAreaWidth spawnAreaHeight visualSize cat retry pos
       rule: viewRetry.induct)
  case (1 rnd existing spawnAreaWidth spawnAreaHeight visualSize cat retry pos)
  note unf = viewRetry.simps [of rnd existing spawnAreaWidth spawnAreaHeight visualSize cat retry pos]
  let ?sx = "FloatBetween (rnd pos) visualSize (spawnAreaWidth - visualSize)"
  let ?sy = "FloatBetween (rnd (pos + 1)) visualSize (spawnAreaHeight - visualSize)"
  let ?d = "DistanceBetween ?sx ?sy (spawnAreaWidth / 2) (spawnAreaHeight / 2)"
  show ?case
  proof (cases "retry < SPAWN_MAX_RETRIES * 2")
    case False
    then show ?thesis unfolding unf by simp
  next
    case lt: True
    have arith: "pos + 2 + 2 * (SPAWN_MAX_RETRIES * 2 - (retry + 1))
        = pos + 2 * (SPAWN_MAX_RETRIES * 2 - retry)"
      using lt by simp
    have rej: "?d < PLAYER_INITIAL_SAFE_ZONE_RADIUS \<or> overlapsExact visualSize cat ?sx ?sy existing"
      using "1.prems" by blast
    show ?thesis
    proof (cases "?d < PLAYER_INITIAL_SAFE_ZONE_RADIUS")
      case True
      from "1.IH"(1) [OF lt refl refl refl refl refl refl True "1.prems"] lt True arith
      show ?thesis unfolding unf by (simp add: Let_def)
    next
      case False
      with rej have ov: "overlapsExact visualSize cat ?sx ?sy existing" by blast
      from "1.IH"(2) [OF lt refl refl refl refl refl refl False ov "1.prems"] lt False ov arith
      show ?thesis unfolding unf by (simp add: Let_def)
    qed
  qed
qed

lemma edgeRetry_exhaust:
  "(\<forall>pos. case edgeCandidate rnd worldView visualSize edge pos of
             (spawnX, spawnY) \<Rightarrow> overlapsFiltered visualSize cat spawnX spawnY existing)
   \<Longrightarrow> edgeRetry rnd existing worldView visualSize cat edge retry pos
       = (None, pos + 2 * (SPAWN_MAX_RETRIES - retry))"
proof (induction rnd existing worldView visualSize cat edge retry pos rule: edgeRetry.induct)
  case (1 rnd existing worldView visualSize cat edge retry pos)
  note unf = edgeRetry.simps [of rnd existing worldView visualSize cat edge retry pos]
  obtain sx sy where c: "edgeCandidate rnd worldView visualSize edge pos = (sx, sy)"
    by (cases "edgeCandidate rnd worldView visualSize edge pos")
  show ?case
  proof (cases "retry < SPAWN_MAX_RETRIES")
    case False
    then show ?thesis unfolding unf by simp
  next
    case lt: True
    have arith: "pos + 2 + 2 * (SPAWN_MAX_RETRIES - (retry + 1)) = pos + 2 * (SPAWN_MAX_RETRIES - retry)"
      using lt by simp
    from "1.prems" c have ov: "overlapsFiltered visualSize cat sx sy existing"
      by (auto split: prod.splits)
    from "1.IH" [OF lt c [symmetric] refl ov "1.prems"] lt c ov arith
    show ?thesis unfolding unf by (simp add: Let_def)
  qed
qed


lemma spawnAsteroid_dropped:
  assumes "camera w = Some worldView"
    and "GetRandom (random w (drawn w)) ACTIVE_ASTEROID_CATEGORIES = Some c"
    and "chooseEdge w (drawn w + 3) = (edge, p0)"
    and "edgeRetry (random w) (children w) worldView
           (real_of_int (Between (random w (drawn w + 1))
              (minSize (ASTEROID_CATEGORIES c)) (maxSize (ASTEROID_CATEGORIES c))))
           (ASTEROID_CATEGORIES c) edge 0 p0 = (None, p)"
  shows "spawnAsteroid w = w\<lparr>drawn := p\<rparr>"
  using assms by (simp add: spawnAsteroid_def Let_def)

lemma spawnAsteroid_created:
  assumes "camera w = Some worldView"
    and "GetRandom (random w (drawn w)) ACTIVE_ASTEROID_CATEGORIES = Some c"
    and "chooseEdge w (drawn w + 3) = (edge, p0)"
    and "edgeRetry (random w) (children w) worldView
           (real_of_int (Between (random w (drawn w + 1))
              (minSize (ASTEROID_CATEGORIES c)) (maxSize (ASTEROID_CATEGORIES c))))
           (ASTEROID_CATEGORIES c) edge 0 p0 = (Some (x, y), p)"
    and "bodyAttach w (nextHandle w)"
  shows "asteroidsGroup (spawnAsteroid w) = asteroidsGroup w @ [nextHandle w]
         \<and> (\<exists>g. objects (spawnAsteroid w) (nextHandle w) = Some g \<and> posX g = x \<and> posY g = y
                 \<and> active g \<and> physBody g \<noteq> None
                 \<and> dataVisualSize g = Some (real_of_int (Between (random w (drawn w + 1))
                       (minSize (ASTEROID_CATEGORIES c)) (maxSize (ASTEROID_CATEGORIES c))))
                 \<and> dataHitPoints g = Some (hp (ASTEROID_CATEGORIES c)))
         \<and> camera (spawnAsteroid w) = camera w \<and> random (spawnAsteroid w) = random w
         \<and> scaleWidth (spawnAsteroid w) = scaleWidth w \<and> scaleHeight (spawnAsteroid w) = scaleHeight w
         \<and> thePlayer (spawnAsteroid w) = thePlayer w \<and> bodyAttach (spawnAsteroid w) = bodyAttach w"
  using assms
  by (simp add: spawnAsteroid_def Let_def addAsteroidGraphics_def setAsteroidData_def
      drawAsteroidShape_def newGraphics_def)

text \<open>
  Claim C7, as amended. When the retry loop of \<open>spawnAsteroidInView\<close> ends without a
  spot, the function calls \<open>spawnAsteroid\<close> once, on the world with the draws of the
  loop used up, and returns. The request then yields an asteroid exactly as that call
  does: when its own retry loop ends without a spot nothing is created and only the
  count of draws changes; when it finds a spot and the engine attaches a body, one
  asteroid with its category's hit points joins the group at that spot.
\<close>

theorem in_view_falls_back_to_edge_spawn:
  assumes cam: "camera w = Some worldView"
    and cat: "GetRandom (random w (drawn w)) ACTIVE_ASTEROID_CATEGORIES = Some c"
    and exhausted: "fst (viewRetry (random w) (children w) (scaleWidth w) (scaleHeight w)
           (real_of_int (Between (random w (drawn w + 1))
              (minSize (ASTEROID_CATEGORIES c)) (maxSize (ASTEROID_CATEGORIES c))))
           (ASTEROID_CATEGORIES c) 0 (drawn w + 3)) = None"
    and fb: "fallback = w\<lparr>drawn := snd (viewRetry (random w) (children w) (scaleWidth w) (scaleHeight w)
           (real_of_int (Between (random w (drawn w + 1))
              (minSize (ASTEROID_CATEGORIES c)) (maxSize (ASTEROID_CATEGORIES c))))
           (ASTEROID_CATEGORIES c) 0 (drawn w + 3))\<rparr>"
  shows "spawnAsteroidInView w = spawnAsteroid fallback
     \<and> (\<forall>c' edge p0 p.
           GetRandom (random w (drawn fallback)) ACTIVE_ASTEROID_CATEGORIES = Some c'
         \<and> chooseEdge fallback (drawn fallback + 3) = (edge, p0)
         \<and> edgeRetry (random w) (children w) worldView
               (real_of_int (Between (random w (drawn fallback + 1))
                  (minSize (ASTEROID_CATEGORIES c')) (maxSize (ASTEROID_CATEGORIES c'))))
               (ASTEROID_CATEGORIES c') edge 0 p0 = (None, p)
         \<longrightarrow> spawnAsteroidInView w = w\<lparr>drawn := p\<rparr>)
     \<and> (\<forall>c' edge p0 p x y.
           GetRandom (random w (drawn fallback)) ACTIVE_ASTEROID_CATEGORIES = Some c'
         \<and> chooseEdge fallback (drawn fallback + 3) = (edge, p0)
         \<and> edgeRetry (random w) (children w) worldView
               (real_of_int (Between (random w (drawn fallback + 1))
                  (minSize (ASTEROID_CATEGORIES c')) (maxSize (ASTEROID_CATEGORIES c'))))
               (ASTEROID_CATEGORIES c') edge 0 p0 = (Some (x, y), p)
         \<and> bodyAttach w (nextHandle w)
         \<longrightarrow> asteroidsGroup (spawnAsteroidInView w) = asteroidsGroup w @ [nextHandle w]
             \<and> (\<exists>g. objects (spawnAsteroidInView w) (nextHandle w) = Some g
                    \<and> posX g = x \<and> posY g = y \<and> active g
                    \<and> dataHitPoints g = Some (hp (ASTEROID_CATEGORIES c'))))"
proof -
  obtain pos where vr: "viewRetry (random w) (children w) (scaleWidth w) (scaleHeight w)
           (real_of_int (Between (random w (drawn w + 1))
              (minSize (ASTEROID_CATEGORIES c)) (maxSize (ASTEROID_CATEGORIES c))))
           (ASTEROID_CATEGORIES c) 0 (drawn w + 3) = (None, pos)"
    using exhausted by (metis prod.collapse)
  have fb': "fallback = w\<lparr>drawn := pos\<rparr>" using fb vr by simp
  have eq: "spawnAsteroidInView w = spawnAsteroid fallback"
    using cam cat vr unfolding fb' by (simp add: spawnAsteroidInView_def Let_def)
  have props: "camera fallback = Some worldView" "random fallback = random w"
      "children fallback = children w" "bodyAttach fallback = bodyAttach w"
      "nextHandle fallback = nextHandle w" "asteroidsGroup fallback = asteroidsGroup w"
    using cam unfolding fb' by (simp_all add: children_def)
  have dropped: "spawnAsteroidInView w = w\<lparr>drawn := p\<rparr>"
    if "GetRandom (random w (drawn fallback)) ACTIVE_ASTEROID_CATEGORIES = Some c'
         \<and> chooseEdge fallback (drawn fallback + 3) = (edge, p0)
         \<and> edgeRetry (random w) (children w) worldView
               (real_of_int (Between (random w (drawn fallback + 1))
                  (minSize (ASTEROID_CATEGORIES c')) (maxSize (ASTEROID_CATEGORIES c'))))
               (ASTEROID_CATEGORIES c') edge 0 p0 = (None, p)" for c' edge p0 p
  proof -
    from that props have "spawnAsteroid fallback = fallback\<lparr>drawn := p\<rparr>"
      by (intro spawnAsteroid_dropped [where c = c' and edge = edge and ?p0.0 = p0
            and worldView = worldView]) simp_all
    then show ?thesis unfolding eq by (simp add: fb')
  qed
  have created: "asteroidsGroup (spawnAsteroidInView w) = asteroidsGroup w @ [nextHandle w]
             \<and> (\<exists>g. objects (spawnAsteroidInView w) (nextHandle w) = Some g
                    \<and> posX g = x \<and> posY g = y \<and> active g
                    \<and> dataHitPoints g = Some (hp (ASTEROID_CATEGORIES c')))"
    if "GetRandom (random w (drawn fallback)) ACTIVE_ASTEROID_CATEGORIES = Some c'
         \<and> chooseEdge fallback (drawn fallback + 3) = (edge, p0)
         \<and> edgeRetry (random w) (children w) worldView
               (real_of_int (Between (random w (drawn fallback + 1))
                  (minSize (ASTEROID_CATEGORIES c')) (maxSize (ASTEROID_CATEGORIES c'))))
               (ASTEROID_CATEGORIES c') edge 0 p0 = (Some (x, y), p)
         \<and> bodyAttach w (nextHandle w)" for c' edge p0 p x y
  proof -
    from that props
    have "asteroidsGroup (spawnAsteroid fallback) = asteroidsGroup fallback @ [nextHandle fallback]
         \<and> (\<exists>g. objects (spawnAsteroid fallback) (nextHandle fallback) = Some g \<and> posX g = x \<and> posY g = y
                 \<and> active g \<and> physBody g \<noteq> None
                 \<and> dataVisualSize g = Some (real_of_int (Between (random fallback (drawn fallback + 1))
                       (minSize (ASTEROID_CATEGORIES c')) (maxSize (ASTEROID_CATEGORIES c'))))
                 \<and> dataHitPoints g = Some (hp (ASTEROID_CATEGORIES c')))
         \<and> camera (spawnAsteroid fallback) = camera fallback \<and> random (spawnAsteroid fallback) = random fallback
         \<and> scaleWidth (spawnAsteroid fallback) = scaleWidth fallback \<and> scaleHeight (spawnAsteroid fallback) = scaleHeight fallback
         \<and> thePlayer (spawnAsteroid fallback) = thePlayer fallback \<and> bodyAttach (spawnAsteroid fallback) = bodyAttach fallback"
      by (intro spawnAsteroid_created [where c = c' and edge = edge and ?p0.0 = p0
            and worldView = worldView and p = p]) simp_all
    then show ?thesis unfolding eq props by blast
  qed
  from eq dropped created show ?thesis by blast
qed


lemma mid_category: "GetRandom midDraw ACTIVE_ASTEROID_CATEGORIES = Some S"
  by (simp add: GetRandom_def ACTIVE_ASTEROID_CATEGORIES_def Rep_midDraw Let_def)

lemma mid_size: "Between midDraw 16 24 = 20"
proof -
  have a: "binary64 (9 / 2) = 9 / 2" using binary64_half_int [of 9] by simp
  have b: "binary64 (9 / 2 + 16) = 41 / 2" using binary64_half_int [of 41] by simp
  have e: "(1 / 2 :: real) * (24 - 16 + 1) = 9 / 2" by simp
  have f: "\<lfloor>41 / 2 :: real\<rfloor> = 20" by simp
  show ?thesis by (simp only: Between_def Rep_midDraw e a b f)
qed

lemma mid_edge: "Between midDraw 0 3 = 2"
proof -
  have a: "binary64 2 = 2" using binary64_half_int [of 4] by simp
  have b: "binary64 (2 + 0) = 2" using a by simp
  have e: "(1 / 2 :: real) * (3 - 0 + 1) = 2" by simp
  have f: "\<lfloor>2 :: real\<rfloor> = 2" by simp
  show ?thesis by (simp only: Between_def Rep_midDraw e a b f)
qed

lemma mid_viewRetry:
  "viewRetry (\<lambda>n. midDraw) existing 800 600 20 cat 0 pos = (None, pos + 60)"
proof -
  have "\<forall>pos. DistanceBetween (FloatBetween midDraw 20 (800 - 20)) (FloatBetween midDraw 20 (600 - 20))
             (800 / 2) (600 / 2) < PLAYER_INITIAL_SAFE_ZONE_RADIUS
         \<or> overlapsExact 20 cat (FloatBetween midDraw 20 (800 - 20))
             (FloatBetween midDraw 20 (600 - 20)) existing"
    by (simp add: DistanceBetween_def FloatBetween_def Rep_midDraw PLAYER_INITIAL_SAFE_ZONE_RADIUS_def)
  from viewRetry_exhaust [where rnd = "\<lambda>n. midDraw", OF this, of 0 pos]
  show ?thesis by (simp add: SPAWN_MAX_RETRIES_def)
qed

lemma mid_chooseEdge:
  assumes "random w = (\<lambda>n. midDraw)" "thePlayer w = Some p" "playerSpeed p = 0"
  shows "chooseEdge w pos = (2, pos + 1)"
  using assms
  by (simp add: chooseEdge_def mid_edge PLAYER_SPEED_THRESHOLD_FOR_BIAS_def Let_def)

lemma mid_edgeCandidate:
  "edgeCandidate (\<lambda>n. midDraw) (mkRectangle 0 0 800 600) 20 2 pos = (400, 710)"
  by (simp add: edgeCandidate_def FloatBetween_def Rep_midDraw mkRectangle_def left_def right_def
      top_of_def bottom_def SPAWN_BUFFER_def)

lemma mid_edgeRetry_free:
  "edgeRetry (\<lambda>n. midDraw) [] (mkRectangle 0 0 800 600) 20 cat 2 0 pos = (Some (400, 710), pos + 2)"
  by (subst edgeRetry.simps) (simp add: mid_edgeCandidate SPAWN_MAX_RETRIES_def)

lemma mid_edgeRetry_taken:
  assumes "posX g = 400" "posY g = 710" "active g" "physBody g \<noteq> None" "dataVisualSize g = Some 20"
  shows "edgeRetry (\<lambda>n. midDraw) [Some g] (mkRectangle 0 0 800 600) 20 cat 2 0 pos = (None, pos + 30)"
proof -
  have "overlapsFiltered 20 cat 400 710 [Some g]"
    using assms
    by (auto simp: Let_def existingSizeOr_def SPAWN_CHECK_RADIUS_MULTIPLIER_def DistanceBetween_def)
  then have "\<forall>pos. case edgeCandidate (\<lambda>n. midDraw) (mkRectangle 0 0 800 600) 20 2 pos of
             (spawnX, spawnY) \<Rightarrow> overlapsFiltered 20 cat spawnX spawnY [Some g]"
    by (simp add: mid_edgeCandidate)
  from edgeRetry_exhaust [OF this, of 0 pos] show ?thesis
    by (simp add: SPAWN_MAX_RETRIES_def)
qed

lemma first_request:
  "asteroidsGroup (spawnAsteroidInView startWorld) = [0]
   \<and> (\<exists>g. objects (spawnAsteroidInView startWorld) 0 = Some g \<and> posX g = 400 \<and> posY g = 710
          \<and> active g \<and> physBody g \<noteq> None \<and> dataVisualSize g = Some 20)
   \<and> camera (spawnAsteroidInView startWorld) = Some (mkRectangle 0 0 800 600)
   \<and> random (spawnAsteroidInView startWorld) = (\<lambda>n. midDraw)
   \<and> scaleWidth (spawnAsteroidInView startWorld) = 800
   \<and> scaleHeight (spawnAsteroidInView startWorld) = 600
   \<and> (\<exists>p. thePlayer (spawnAsteroidInView startWorld) = Some p \<and> playerSpeed p = 0)"
proof -
  let ?fb = "startWorld\<lparr>drawn := 63\<rparr>"
  have eq: "spawnAsteroidInView startWorld = spawnAsteroid ?fb"
    by (simp add: spawnAsteroidInView_def startWorld_def mid_category mid_size mid_viewRetry
        children_def Let_def)
  have cam: "camera ?fb = Some (mkRectangle 0 0 800 600)"
    by (simp add: startWorld_def)
  have cat: "GetRandom (random ?fb (drawn ?fb)) ACTIVE_ASTEROID_CATEGORIES = Some S"
    by (simp add: startWorld_def mid_category)
  have "chooseEdge ?fb (drawn ?fb + 3) = (2, drawn ?fb + 3 + 1)"
    by (rule mid_chooseEdge) (simp add: startWorld_def)+
  then have ce: "chooseEdge ?fb (drawn ?fb + 3) = (2, 67)" by simp
  have er: "edgeRetry (random ?fb) (children ?fb) (mkRectangle 0 0 800 600)
           (real_of_int (Between (random ?fb (drawn ?fb + 1))
              (minSize (ASTEROID_CATEGORIES S)) (maxSize (ASTEROID_CATEGORIES S))))
           (ASTEROID_CATEGORIES S) 2 0 67 = (Some (400, 710), 69)"
    using mid_edgeRetry_free [of "ASTEROID_CATEGORIES S" 67]
    by (simp add: startWorld_def children_def mid_size)
  have ba: "bodyAttach ?fb (nextHandle ?fb)" by (simp add: startWorld_def)
  note cr = spawnAsteroid_created [OF cam cat ce er ba]
  from cr obtain g where g: "objects (spawnAsteroid ?fb) (nextHandle ?fb) = Some g"
      "posX g = 400" "posY g = 710" "active g" "physBody g \<noteq> None"
      "dataVisualSize g = Some (real_of_int (Between (random ?fb (drawn ?fb + 1))
                       (minSize (ASTEROID_CATEGORIES S)) (maxSize (ASTEROID_CATEGORIES S))))"
    by blast
  have g0: "objects (spawnAsteroid ?fb) 0 = Some g" "dataVisualSize g = Some 20"
    using g(1,6) by (simp_all add: startWorld_def mid_size)
  have rest: "asteroidsGroup (spawnAsteroid ?fb) = [0]"
      "camera (spawnAsteroid ?fb) = Some (mkRectangle 0 0 800 600)"
      "random (spawnAsteroid ?fb) = (\<lambda>n. midDraw)"
      "scaleWidth (spawnAsteroid ?fb) = 800" "scaleHeight (spawnAsteroid ?fb) = 600"
      "\<exists>p. thePlayer (spawnAsteroid ?fb) = Some p \<and> playerSpeed p = 0"
    using cr by (simp_all add: startWorld_def)
  show ?thesis unfolding eq using g0 g(2-5) rest by blast
qed


lemma first_request_stuck: "stuckWorld (spawnAsteroidInView startWorld)"
  unfolding stuckWorld_def using first_request by blast

lemma stuck_request:
  assumes "stuckWorld w"
  shows "spawnAsteroidInView w = w\<lparr>drawn := drawn w + 97\<rparr>"
proof -
  from assms obtain p g where
    cam: "camera w = Some (mkRectangle 0 0 800 600)" and sc: "scaleWidth w = 800" "scaleHeight w = 600"
    and pl: "thePlayer w = Some p" "playerSpeed p = 0"
    and rnd: "random w = (\<lambda>n. midDraw)" and grp: "asteroidsGroup w = [0]"
    and g: "objects w 0 = Some g" "posX g = 400" "posY g = 710" "active g" "physBody g \<noteq> None"
       "dataVisualSize g = Some 20"
    unfolding stuckWorld_def by blast
  let ?fb = "w\<lparr>drawn := drawn w + 63\<rparr>"
  have ch: "children w = [Some g]" by (simp add: children_def grp g(1))
  have eq: "spawnAsteroidInView w = spawnAsteroid ?fb"
    using cam sc rnd
    by (simp add: spawnAsteroidInView_def mid_category mid_size mid_viewRetry Let_def add.commute)
  have cam': "camera ?fb = Some (mkRectangle 0 0 800 600)" using cam by simp
  have cat: "GetRandom (random ?fb (drawn ?fb)) ACTIVE_ASTEROID_CATEGORIES = Some S"
    using rnd by (simp add: mid_category)
  have "chooseEdge ?fb (drawn ?fb + 3) = (2, drawn ?fb + 3 + 1)"
    by (rule mid_chooseEdge [where p = p]) (simp add: rnd pl)+
  then have ce: "chooseEdge ?fb (drawn ?fb + 3) = (2, drawn w + 67)" by simp
  have er: "edgeRetry (random ?fb) (children ?fb) (mkRectangle 0 0 800 600)
           (real_of_int (Between (random ?fb (drawn ?fb + 1))
              (minSize (ASTEROID_CATEGORIES S)) (maxSize (ASTEROID_CATEGORIES S))))
           (ASTEROID_CATEGORIES S) 2 0 (drawn w + 67) = (None, drawn w + 97)"
    using mid_edgeRetry_taken [OF g(2-6), of "ASTEROID_CATEGORIES S" "drawn w + 67"] ch rnd
    by (simp add: children_def mid_size)
  from spawnAsteroid_dropped [OF cam' cat ce er] show ?thesis unfolding eq by simp
qed

lemma stuck_forever:
  "stuckWorld w \<Longrightarrow> asteroidsGroup (initialSpawning w n) = [0]"
proof (induction n arbitrary: w)
  case 0
  then show ?case by (simp add: stuckWorld_def)
next
  case (Suc n)
  have "stuckWorld (w\<lparr>drawn := drawn w + 97\<rparr>)"
    using Suc.prems by (simp add: stuckWorld_def)
  from Suc.IH [OF this] show ?case by (simp add: stuck_request [OF Suc.prems])
qed

text \<open>
  Claim C7 as stated fails: a startup request can be dropped. In the start world with
  every draw in the middle of the range, each in-view attempt lands on the player's
  start, the first fallback places an asteroid at (400, 710), and every later fallback
  tries that same spot: of the 20 startup requests only the first yields an asteroid.
\<close>

theorem startup_requests_dropped:
  "asteroidsGroup (initialSpawning startWorld ASTEROID_INITIAL_COUNT) = [0]
   \<and> ASTEROID_INITIAL_COUNT = 20
   \<and> spawnAsteroidInView (spawnAsteroidInView startWorld)
       = (spawnAsteroidInView startWorld)\<lparr>drawn := drawn (spawnAsteroidInView startWorld) + 97\<rparr>"
proof -
  have "initialSpawning startWorld ASTEROID_INITIAL_COUNT
      = initialSpawning (spawnAsteroidInView startWorld) 19"
    by (simp add: ASTEROID_INITIAL_COUNT_def eval_nat_numeral)
  then show ?thesis
    using stuck_forever [OF first_request_stuck, of 19] stuck_request [OF first_request_stuck]
    by (simp add: ASTEROID_INITIAL_COUNT_def)
qed


theorem in_view_falls_back_to_edge_spawn_witness:
  "spawnAsteroidInView startWorld = spawnAsteroid (startWorld\<lparr>drawn := 63\<rparr>)
   \<and> asteroidsGroup (spawnAsteroidInView startWorld) = [0]
   \<and> (\<exists>g. objects (spawnAsteroidInView startWorld) 0 = Some g
          \<and> posX g = 400 \<and> posY g = 710 \<and> active g \<and> dataHitPoints g = Some 2)"
proof -
  let ?vr = "viewRetry (random startWorld) (children startWorld) (scaleWidth startWorld)
           (scaleHeight startWorld)
           (real_of_int (Between (random startWorld (drawn startWorld + 1))
              (minSize (ASTEROID_CATEGORIES S)) (maxSize (ASTEROID_CATEGORIES S))))
           (ASTEROID_CATEGORIES S) 0 (drawn startWorld + 3)"
  let ?fb = "startWorld\<lparr>drawn := snd ?vr\<rparr>"
  have cam: "camera startWorld = Some (mkRectangle 0 0 800 600)"
    by (simp add: startWorld_def)
  have cat: "GetRandom (random startWorld (drawn startWorld)) ACTIVE_ASTEROID_CATEGORIES = Some S"
    by (simp add: startWorld_def mid_category)
  have vr: "?vr = (None, 63)"
    using mid_viewRetry [of "children startWorld" "ASTEROID_CATEGORIES S" 3]
    by (simp add: startWorld_def mid_size)
  then have exhausted: "fst ?vr = None" by simp
  have fb: "?fb = startWorld\<lparr>drawn := 63\<rparr>" using vr by simp
  have cat': "GetRandom (random startWorld (drawn ?fb)) ACTIVE_ASTEROID_CATEGORIES = Some S"
    by (simp add: startWorld_def mid_category)
  have "chooseEdge ?fb (drawn ?fb + 3) = (2, drawn ?fb + 3 + 1)"
    by (rule mid_chooseEdge) (simp add: startWorld_def)+
  then have ce: "chooseEdge ?fb (drawn ?fb + 3) = (2, 67)" unfolding fb by simp
  have er: "edgeRetry (random startWorld) (children startWorld) (mkRectangle 0 0 800 600)
               (real_of_int (Between (random startWorld (drawn ?fb + 1))
                  (minSize (ASTEROID_CATEGORIES S)) (maxSize (ASTEROID_CATEGORIES S))))
               (ASTEROID_CATEGORIES S) 2 0 67 = (Some (400, 710), 69)"
    using mid_edgeRetry_free [of "ASTEROID_CATEGORIES S" 67]
    by (simp add: startWorld_def children_def mid_size)
  have ba: "bodyAttach startWorld (nextHandle startWorld)" by (simp add: startWorld_def)
  note th = in_view_falls_back_to_edge_spawn [OF cam cat exhausted refl]
  from th have eq: "spawnAsteroidInView startWorld = spawnAsteroid ?fb" by blast
  from th cat' ce er ba
  have "asteroidsGroup (spawnAsteroidInView startWorld) = asteroidsGroup startWorld @ [nextHandle startWorld]
             \<and> (\<exists>g. objects (spawnAsteroidInView startWorld) (nextHandle startWorld) = Some g
                    \<and> posX g = 400 \<and> posY g = 710 \<and> active g
                    \<and> dataHitPoints g = Some (hp (ASTEROID_CATEGORIES S)))"
    by blast
  then have "asteroidsGroup (spawnAsteroidInView startWorld) = [0]
     \<and> (\<exists>g. objects (spawnAsteroidInView startWorld) 0 = Some g
          \<and> posX g = 400 \<and> posY g = 710 \<and> active g \<and> dataHitPoints g = Some 2)"
    by (simp add: startWorld_def)
  with eq fb show ?thesis by simp
qed

section \<open>The invariant of live asteroids: facts\<close>

lemma worldInvariant_cong:
  assumes "objects w' = objects w" "asteroidsGroup w' = asteroidsGroup w" "nextHandle w' = nextHandle w"
  shows "worldInvariant w' = worldInvariant w"
  using assms by (simp add: worldInvariant_def)

lemma worldInvariant_removeAsteroid:
  assumes "worldInvariant w"
  shows "worldInvariant (removeAsteroid w h)"
  using assms by (auto simp: worldInvariant_def removeAsteroid_def)

lemma length_generateAsteroidPoints:
  "length (generateAsteroidPoints rnd pos avgRadius numVertices) = nat numVertices"
  by (simp add: generateAsteroidPoints_def generateAsteroidPointsWith_def)

lemma numVertices_range:
  "6 \<le> Between u ASTEROID_MIN_VERTICES ASTEROID_MAX_VERTICES"
  "Between u ASTEROID_MIN_VERTICES ASTEROID_MAX_VERTICES \<le> 12"
  using Between_range [of 6 11 u]
  by (simp_all add: ASTEROID_MIN_VERTICES_def ASTEROID_MAX_VERTICES_def)

lemma length_generated_range:
  "6 \<le> length (generateAsteroidPoints rnd pos avgRadius
            (Between u ASTEROID_MIN_VERTICES ASTEROID_MAX_VERTICES))"
  "length (generateAsteroidPoints rnd pos avgRadius
            (Between u ASTEROID_MIN_VERTICES ASTEROID_MAX_VERTICES)) \<le> 12"
  using numVertices_range [of u] by (simp_all add: length_generateAsteroidPoints)

lemma hp_category: "hp (ASTEROID_CATEGORIES c) \<in> {1, 2, 3}"
  by (cases c) simp_all

lemma hp_category_pos: "0 < hp (ASTEROID_CATEGORIES c)"
  by (cases c) simp_all

lemma worldInvariant_created:
  assumes inv: "worldInvariant w"
    and add: "addAsteroidGraphics w pts x y = (w1, h, g)"
    and len: "6 \<le> length pts" "length pts \<le> 12"
  shows "worldInvariant (w1\<lparr>objects := (objects w1)
            (h := Some (setAsteroidData (g\<lparr>physBody := Some b\<rparr>) c (hp (ASTEROID_CATEGORIES c)) vs pts)),
            drawn := p\<rparr>)"
proof -
  have live: "liveAsteroid (setAsteroidData (g\<lparr>physBody := Some b\<rparr>) c (hp (ASTEROID_CATEGORIES c)) vs pts)"
    using add len hp_category_pos [of c]
    by (auto simp: liveAsteroid_def setAsteroidData_def addAsteroidGraphics_def Let_def
        drawAsteroidShape_def newGraphics_def)
  have h: "h = nextHandle w" "asteroidsGroup w1 = asteroidsGroup w @ [h]"
      "nextHandle w1 = Suc h" "\<And>k. k \<noteq> h \<Longrightarrow> objects w1 k = objects w k"
    using add by (auto simp: addAsteroidGraphics_def Let_def)
  have old: "k \<noteq> h" if "k \<in> set (asteroidsGroup w)" for k
    using that inv h(1) by (auto simp: worldInvariant_def)
  show ?thesis
    unfolding worldInvariant_def
    using inv live h old by (auto simp: worldInvariant_def)
qed

lemma worldInvariant_bodyfail:
  assumes inv: "worldInvariant w"
    and add: "addAsteroidGraphics w pts x y = (w1, h, g)"
  shows "worldInvariant (removeAsteroid (w1\<lparr>drawn := p\<rparr>) h)"
proof -
  have h: "h = nextHandle w" "asteroidsGroup w1 = asteroidsGroup w @ [h]"
      "nextHandle w1 = Suc h" "\<And>k. k \<noteq> h \<Longrightarrow> objects w1 k = objects w k"
    using add by (auto simp: addAsteroidGraphics_def Let_def)
  have old: "k \<noteq> h" if "k \<in> set (asteroidsGroup w)" for k
    using that inv h(1) by (auto simp: worldInvariant_def)
  show ?thesis
    unfolding worldInvariant_def removeAsteroid_def
    using inv h old by (auto simp: worldInvariant_def)
qed

lemma worldInvariant_drawn: "worldInvariant (w\<lparr>drawn := p\<rparr>) = worldInvariant w"
  by (simp add: worldInvariant_def)

lemma worldInvariant_spawnAsteroidInRegionTraced:
  assumes "worldInvariant w"
  shows "worldInvariant (fst (spawnAsteroidInRegionTraced w regionBounds))"
proof (cases "camera w")
  case None
  with assms show ?thesis by (simp add: spawnAsteroidInRegionTraced_def)
next
  case (Some worldView)
  obtain c where c: "GetRandom (random w (drawn w)) ACTIVE_ASTEROID_CATEGORIES = Some c"
    using GetRandom_active by blast
  let ?vs = "real_of_int (Between (random w (drawn w + 1))
               (minSize (ASTEROID_CATEGORIES c)) (maxSize (ASTEROID_CATEGORIES c)))"
  let ?nv = "Between (random w (drawn w + 2)) ASTEROID_MIN_VERTICES ASTEROID_MAX_VERTICES"
  obtain spot attempts pos where loop: "regionRetry (random w) (children w) worldView regionBounds
      ?vs (ASTEROID_CATEGORIES c) 0 (drawn w + 3) = (spot, attempts, pos)"
    by (metis prod_cases3)
  show ?thesis
  proof (cases spot)
    case None
    with assms Some c loop show ?thesis
      by (simp add: spawnAsteroidInRegionTraced_def Let_def worldInvariant_drawn)
  next
    case sp: (Some xy)
    obtain x y where xy: "xy = (x, y)" by (cases xy)
    let ?pts = "generateAsteroidPoints (random w) pos ?vs ?nv"
    obtain w1 h g where add: "addAsteroidGraphics w ?pts x y = (w1, h, g)"
      by (metis prod_cases3)
    show ?thesis
    proof (cases "physBody g")
      case None
      from worldInvariant_bodyfail [OF assms add] None Some c loop sp xy add
      show ?thesis by (simp add: spawnAsteroidInRegionTraced_def Let_def)
    next
      case bd: (Some b)
      from worldInvariant_created [OF assms add length_generated_range] bd Some c loop sp xy add
      show ?thesis by (simp add: spawnAsteroidInRegionTraced_def Let_def)
    qed
  qed
qed


lemma worldInvariant_spawnAsteroid:
  assumes "worldInvariant w"
  shows "worldInvariant (spawnAsteroid w)"
proof (cases "camera w")
  case None
  with assms show ?thesis by (simp add: spawnAsteroid_def)
next
  case (Some worldView)
  obtain c where c: "GetRandom (random w (drawn w)) ACTIVE_ASTEROID_CATEGORIES = Some c"
    using GetRandom_active by blast
  let ?vs = "real_of_int (Between (random w (drawn w + 1))
               (minSize (ASTEROID_CATEGORIES c)) (maxSize (ASTEROID_CATEGORIES c)))"
  let ?nv = "Between (random w (drawn w + 2)) ASTEROID_MIN_VERTICES ASTEROID_MAX_VERTICES"
  obtain edge p0 where ce: "chooseEdge w (drawn w + 3) = (edge, p0)"
    by (cases "chooseEdge w (drawn w + 3)")
  obtain spot pos where loop: "edgeRetry (random w) (children w) worldView
      ?vs (ASTEROID_CATEGORIES c) edge 0 p0 = (spot, pos)"
    by (cases "edgeRetry (random w) (children w) worldView ?vs (ASTEROID_CATEGORIES c) edge 0 p0")
  show ?thesis
  proof (cases spot)
    case None
    with assms Some c ce loop show ?thesis
      by (simp add: spawnAsteroid_def Let_def worldInvariant_drawn)
  next
    case sp: (Some xy)
    obtain x y where xy: "xy = (x, y)" by (cases xy)
    let ?pts = "generateAsteroidPoints (random w) pos ?vs ?nv"
    obtain w1 h g where add: "addAsteroidGraphics w ?pts x y = (w1, h, g)"
      by (metis prod_cases3)
    show ?thesis
    proof (cases "physBody g")
      case None
      from worldInvariant_bodyfail [OF assms add] None Some c ce loop sp xy add
      show ?thesis by (simp add: spawnAsteroid_def Let_def)
    next
      case bd: (Some b)
      from worldInvariant_created [OF assms add length_generated_range] bd Some c ce loop sp xy add
      show ?thesis by (simp add: spawnAsteroid_def Let_def)
    qed
  qed
qed

lemma worldInvariant_spawnAsteroidInView:
  assumes "worldInvariant w"
  shows "worldInvariant (spawnAsteroidInView w)"
proof (cases "camera w")
  case None
  with assms show ?thesis by (simp add: spawnAsteroidInView_def)
next
  case (Some cam)
  obtain c where c: "GetRandom (random w (drawn w)) ACTIVE_ASTEROID_CATEGORIES = Some c"
    using GetRandom_active by blast
  let ?vs = "real_of_int (Between (random w (drawn w + 1))
               (minSize (ASTEROID_CATEGORIES c)) (maxSize (ASTEROID_CATEGORIES c)))"
  let ?nv = "Between (random w (drawn w + 2)) ASTEROID_MIN_VERTICES ASTEROID_MAX_VERTICES"
  obtain spot pos where loop: "viewRetry (random w) (children w) (scaleWidth w) (scaleHeight w)
      ?vs (ASTEROID_CATEGORIES c) 0 (drawn w + 3) = (spot, pos)"
    by (cases "viewRetry (random w) (children w) (scaleWidth w) (scaleHeight w)
      ?vs (ASTEROID_CATEGORIES c) 0 (drawn w + 3)")
  show ?thesis
  proof (cases spot)
    case None
    have "worldInvariant (spawnAsteroid (w\<lparr>drawn := pos\<rparr>))"
      using assms by (intro worldInvariant_spawnAsteroid) (simp add: worldInvariant_drawn)
    with Some c loop None show ?thesis
      by (simp add: spawnAsteroidInView_def Let_def)
  next
    case sp: (Some xy)
    obtain x y where xy: "xy = (x, y)" by (cases xy)
    let ?pts = "generateAsteroidPoints (random w) pos ?vs ?nv"
    obtain w1 h g where add: "addAsteroidGraphics w ?pts x y = (w1, h, g)"
      by (metis prod_cases3)
    show ?thesis
    proof (cases "physBody g")
      case None
      from worldInvariant_bodyfail [OF assms add] None Some c loop sp xy add
      show ?thesis by (simp add: spawnAsteroidInView_def Let_def)
    next
      case bd: (Some b)
      from worldInvariant_created [OF assms add length_generated_range] bd Some c loop sp xy add
      show ?thesis by (simp add: spawnAsteroidInView_def Let_def)
    qed
  qed
qed

lemma worldInvariant_spawnAsteroidInRegion:
  "worldInvariant w \<Longrightarrow> worldInvariant (fst (spawnAsteroidInRegion w regionBounds))"
  using worldInvariant_spawnAsteroidInRegionTraced [of w regionBounds]
  by (auto simp: spawnAsteroidInRegion_def split: prod.splits)

lemma worldInvariant_spawnNeeded:
  "worldInvariant w \<Longrightarrow> worldInvariant (fst (spawnNeeded w bounds i n))"
proof (induction n arbitrary: w)
  case 0
  then show ?case by simp
next
  case (Suc n)
  from worldInvariant_spawnAsteroidInRegion [OF Suc.prems, of bounds]
  have "worldInvariant (fst (spawnNeeded (fst (spawnAsteroidInRegion w bounds)) bounds i n))"
    by (rule Suc.IH)
  then show ?case by (auto simp: Let_def split: prod.splits)
qed

lemma worldInvariant_fillQuadrants:
  "worldInvariant w \<Longrightarrow> worldInvariant (fst (fillQuadrants w quadrants counts i))"
proof (induction w quadrants counts i rule: fillQuadrants.induct)
  case (1 w quadrants counts i)
  note unf = fillQuadrants.simps [of w quadrants counts i]
  show ?case
  proof (cases "i < length quadrants")
    case False
    with "1.prems" show ?thesis unfolding unf by simp
  next
    case lt: True
    show ?thesis
    proof (cases "TARGET_ASTEROIDS_PER_QUADRANT - counts ! i > 0")
      case False
      from "1.IH"(2) [OF lt refl refl False "1.prems"] lt False
      show ?thesis unfolding unf by (simp add: Let_def)
    next
      case True
      obtain w1 calls1 where s1: "spawnNeeded w (quadrants ! i) i
          (nat (TARGET_ASTEROIDS_PER_QUADRANT - counts ! i)) = (w1, calls1)"
        by (cases "spawnNeeded w (quadrants ! i) i (nat (TARGET_ASTEROIDS_PER_QUADRANT - counts ! i))")
      have "worldInvariant w1"
        using worldInvariant_spawnNeeded [OF "1.prems", of "quadrants ! i" i
            "nat (TARGET_ASTEROIDS_PER_QUADRANT - counts ! i)"] s1 by simp
      from "1.IH"(1) [OF lt refl refl True s1 [symmetric] refl this] lt True s1
      show ?thesis unfolding unf by (auto simp: Let_def split: prod.splits)
    qed
  qed
qed

lemma worldInvariant_checkAndPopulateDistantAreas:
  "worldInvariant w \<Longrightarrow> worldInvariant (checkAndPopulateDistantAreas w)"
  by (auto simp: checkAndPopulateDistantAreas_def checkAndPopulateDistantAreasTraced_def Let_def
      worldInvariant_fillQuadrants split: option.splits)


lemma worldInvariant_update_live:
  assumes inv: "worldInvariant w" and old: "objects w a = Some x" and live: "liveAsteroid y"
  shows "worldInvariant (w\<lparr>objects := (objects w)(a := Some y)\<rparr>)"
proof -
  have "a < nextHandle w"
    using inv old by (auto simp: worldInvariant_def not_le [symmetric])
  with inv live show ?thesis by (auto simp: worldInvariant_def)
qed

lemma worldInvariant_destroyBullet: "worldInvariant (destroyBullet w b) = worldInvariant w"
  by (rule worldInvariant_cong) (simp_all add: destroyBullet_def)

lemma worldInvariant_explosions: "worldInvariant (w\<lparr>explosions := e\<rparr>) = worldInvariant w"
  by (rule worldInvariant_cong) simp_all

lemma worldInvariant_timers: "worldInvariant (w\<lparr>timers := t\<rparr>) = worldInvariant w"
  by (rule worldInvariant_cong) simp_all

lemma liveAsteroid_hit:
  assumes "liveAsteroid x" "dataHitPoints x = Some n" "0 < n - 1"
  shows "liveAsteroid (x\<lparr>dataHitPoints := Some (n - 1)\<rparr>)"
  using assms by (auto simp: liveAsteroid_def)

lemma liveAsteroid_redraw:
  assumes "liveAsteroid x"
  shows "liveAsteroid (drawAsteroidShape (x\<lparr>dataIsHit := f\<rparr>) pts fl)"
    and "liveAsteroid ((drawAsteroidShape x pts fl)\<lparr>dataIsHit := f\<rparr>)"
  using assms by (auto simp: liveAsteroid_def drawAsteroidShape_def split: option.splits)

lemma worldInvariant_handleBulletAsteroidCollision:
  assumes inv: "worldInvariant w"
  shows "worldInvariant (handleBulletAsteroidCollision w b a)"
proof (cases "bulletObjects w b")
  case None
  with inv show ?thesis by (simp add: handleBulletAsteroidCollision_def)
next
  case bl: (Some bullet)
  show ?thesis
  proof (cases "objects w a")
    case None
    with inv bl show ?thesis by (simp add: handleBulletAsteroidCollision_def)
  next
    case (Some x)
    show ?thesis
    proof (cases "\<not> bulletActive bullet \<or> \<not> active x \<or> physBody x = None")
      case True
      with inv bl Some show ?thesis by (auto simp: handleBulletAsteroidCollision_def)
    next
      case guard: False
      let ?w1 = "destroyBullet w b"
      have inv1: "worldInvariant ?w1" using inv by (simp add: worldInvariant_destroyBullet)
      have o1: "objects ?w1 = objects w" by (simp add: destroyBullet_def)
      show ?thesis
      proof (cases "dataHitPoints x")
        case None
        from worldInvariant_removeAsteroid [OF inv1, of a] None bl Some guard
        show ?thesis by (auto simp: handleBulletAsteroidCollision_def Let_def)
      next
        case hp: (Some n)
        let ?x1 = "x\<lparr>dataHitPoints := Some (n - 1)\<rparr>"
        let ?w2 = "?w1\<lparr>objects := (objects ?w1)(a := Some ?x1)\<rparr>"
        show ?thesis
        proof (cases "n - 1 \<le> 0")
          case True
          have lt: "a < nextHandle w"
            using inv Some by (auto simp: worldInvariant_def not_le [symmetric])
          have "worldInvariant (removeAsteroid ?w2 a)"
            using inv lt
            by (auto simp: worldInvariant_def removeAsteroid_def destroyBullet_def)
          moreover have "worldInvariant (removeAsteroid (?w2\<lparr>explosions := e\<rparr>) a)" for e
            using inv lt
            by (auto simp: worldInvariant_def removeAsteroid_def destroyBullet_def)
          ultimately show ?thesis
            using True bl Some guard hp
            by (auto simp: handleBulletAsteroidCollision_def Let_def)
        next
          case False
          then have pos: "0 < n - 1" by simp
          show ?thesis
          proof (cases "a \<in> set (asteroidsGroup w)")
            case True
            then have lx: "liveAsteroid x" using inv Some by (auto simp: worldInvariant_def)
            have l1: "liveAsteroid ?x1" by (rule liveAsteroid_hit [OF lx hp pos])
            have inv2: "worldInvariant ?w2"
              using worldInvariant_update_live [OF inv1 _ l1, of a x] Some o1 by simp
            have o2: "objects ?w2 a = Some ?x1" by simp
            have inv3: "worldInvariant (?w2\<lparr>objects := (objects ?w2)(a := Some y), timers := t\<rparr>)"
              if "liveAsteroid y" for y t
              using worldInvariant_update_live [OF inv2 o2 that] by (simp add: worldInvariant_def)
            from inv2 inv3 [OF liveAsteroid_redraw(1) [OF l1]] False bl Some guard hp
            show ?thesis
              by (auto simp: handleBulletAsteroidCollision_def Let_def split: option.splits)
          next
            case notin: False
            have lt: "a < nextHandle w"
              using inv Some by (auto simp: worldInvariant_def not_le [symmetric])
            have "worldInvariant (w'\<lparr>objects := (objects w)(a := Some y)\<rparr>)"
              if "asteroidsGroup w' = asteroidsGroup w" "nextHandle w' = nextHandle w" for w' y
              using inv notin lt that by (auto simp: worldInvariant_def)
            note any = this
            have inv2: "worldInvariant ?w2"
              using any [of ?w1 ?x1] o1 by (simp add: destroyBullet_def)
            have "worldInvariant (?w2\<lparr>objects := (objects ?w2)(a := Some y), timers := t\<rparr>)" for y t
              using inv notin lt by (auto simp: worldInvariant_def destroyBullet_def)
            with inv2 False bl Some guard hp
            show ?thesis
              by (auto simp: handleBulletAsteroidCollision_def Let_def split: option.splits)
          qed
        qed
      qed
    qed
  qed
qed

lemma worldInvariant_handlePlayerAsteroidCollision:
  assumes inv: "worldInvariant w"
  shows "worldInvariant (handlePlayerAsteroidCollision w a)"
proof -
  have "worldInvariant (removeAsteroid (w\<lparr>explosions := e\<rparr>) a)" for e
    by (rule worldInvariant_removeAsteroid) (simp add: worldInvariant_explosions inv)
  with inv worldInvariant_removeAsteroid [OF inv, of a] show ?thesis
    by (auto simp: handlePlayerAsteroidCollision_def Let_def split: option.splits)
qed

lemma worldInvariant_cleanupAsteroid:
  "worldInvariant w \<Longrightarrow> worldInvariant (cleanupAsteroid bounds w h)"
  by (auto simp: cleanupAsteroid_def worldInvariant_removeAsteroid split: option.splits)

lemma worldInvariant_iterate:
  assumes step: "\<And>v h. worldInvariant v \<Longrightarrow> worldInvariant (callback v h)"
  shows "worldInvariant w \<Longrightarrow> worldInvariant (iterate entries callback w)"
proof -
  have "worldInvariant w \<Longrightarrow>
        worldInvariant (foldl (\<lambda>v i. if i < length (entries v) then callback v (entries v ! i) else v) w js)"
    for js
    by (induction js arbitrary: w) (simp_all add: step)
  then show "worldInvariant w \<Longrightarrow> worldInvariant (iterate entries callback w)"
    unfolding iterate_def by blast
qed

lemma worldInvariant_cleanupOutOfBoundsAsteroids:
  "worldInvariant w \<Longrightarrow> worldInvariant (cleanupOutOfBoundsAsteroids w)"
  by (auto simp: cleanupOutOfBoundsAsteroids_def Let_def
      intro!: worldInvariant_iterate worldInvariant_cleanupAsteroid split: option.splits)

lemma worldInvariant_cleanupBullet:
  "worldInvariant w \<Longrightarrow> worldInvariant (cleanupBullet bounds w h)"
  by (auto simp: cleanupBullet_def worldInvariant_destroyBullet split: option.splits)

lemma worldInvariant_cleanupOutOfBoundsBullets:
  "worldInvariant w \<Longrightarrow> worldInvariant (cleanupOutOfBoundsBullets w)"
  by (auto simp: cleanupOutOfBoundsBullets_def Let_def
      intro!: worldInvariant_iterate worldInvariant_cleanupBullet split: option.splits)

text \<open>
  A child that follows a removed one is not visited: of three asteroids in the group,
  the first two far outside the cleanup rectangle, one call removes only the first.
\<close>

lemma cleanup_skips_after_removed:
  "asteroidsGroup (cleanupOutOfBoundsAsteroids
      (startWorld\<lparr>objects := (\<lambda>h. if h = 0 then Some (circleAsteroid 5000 0 20)
                                else if h = 1 then Some (circleAsteroid 6000 0 20)
                                else if h = 2 then Some (circleAsteroid 400 300 20) else None),
                  asteroidsGroup := [0, 1, 2], nextHandle := 3\<rparr>)) = [1, 2]"
  by (simp add: cleanupOutOfBoundsAsteroids_def iterate_def startWorld_def cleanupAsteroid_def
      removeAsteroid_def circleAsteroid_def mkRectangle_def Contains_def left_def top_of_def
      CLEANUP_BUFFER_def Let_def upt_rec)

lemma worldInvariant_flashRevertCallback:
  assumes inv: "worldInvariant w"
  shows "worldInvariant (flashRevertCallback w a pts)"
proof (cases "objects w a")
  case None
  with inv show ?thesis by (simp add: flashRevertCallback_def)
next
  case (Some x)
  show ?thesis
  proof (cases "a \<in> set (asteroidsGroup w)")
    case True
    then have lx: "liveAsteroid x" using inv Some by (auto simp: worldInvariant_def)
    from worldInvariant_update_live [OF inv Some liveAsteroid_redraw(2) [OF lx]] inv Some
    show ?thesis by (simp add: flashRevertCallback_def)
  next
    case False
    have lt: "a < nextHandle w"
      using inv Some by (auto simp: worldInvariant_def not_le [symmetric])
    have "worldInvariant (w\<lparr>objects := (objects w)(a := Some y)\<rparr>)" for y
      using inv False lt by (auto simp: worldInvariant_def)
    with inv Some show ?thesis by (simp add: flashRevertCallback_def)
  qed
qed

lemma worldInvariant_fireTimer:
  "worldInvariant w \<Longrightarrow> worldInvariant (fireTimer w n)"
  by (auto simp: fireTimer_def Let_def worldInvariant_flashRevertCallback worldInvariant_timers
      split: prod.splits)

lemma liveAsteroid_sameButMoved:
  "sameButMoved x y \<Longrightarrow> liveAsteroid x \<Longrightarrow> liveAsteroid y"
  by (auto simp: sameButMoved_def liveAsteroid_def)

lemma worldInvariant_engineStep:
  assumes inv: "worldInvariant w" and st: "engineStep w w'"
  shows "worldInvariant w'"
proof -
  have rel: "rel_option sameButMoved (objects w h) (objects w' h)" for h
    using st by (simp add: engineStep_def)
  have same: "asteroidsGroup w' = asteroidsGroup w" "nextHandle w' = nextHandle w"
    using st by (simp_all add: engineStep_def)
  have a: "\<exists>y. objects w' h = Some y \<and> liveAsteroid y" if "h \<in> set (asteroidsGroup w')" for h
  proof -
    from that same inv obtain x where x: "objects w h = Some x" "liveAsteroid x"
      by (auto simp: worldInvariant_def)
    from rel [of h] x(1) obtain y where "objects w' h = Some y" "sameButMoved x y"
      by (cases "objects w' h") auto
    with x(2) show ?thesis by (auto intro: liveAsteroid_sameButMoved)
  qed
  have b: "objects w' h = None" if "nextHandle w' \<le> h" for h
  proof -
    from that same inv have "objects w h = None" by (simp add: worldInvariant_def)
    with rel [of h] show ?thesis by (cases "objects w' h") auto
  qed
  from a b show ?thesis by (auto simp: worldInvariant_def)
qed

lemma reachable_worldInvariant: "reachable w \<Longrightarrow> worldInvariant w"
proof (induction rule: reachable.induct)
  case (start w)
  then show ?case by (simp add: emptyWorld_def worldInvariant_def)
next
  case (inView w)
  from inView.IH show ?case by (rule worldInvariant_spawnAsteroidInView)
next
  case (offScreen w)
  from offScreen.IH show ?case by (rule worldInvariant_spawnAsteroid)
next
  case (proactive w)
  from proactive.IH show ?case by (rule worldInvariant_checkAndPopulateDistantAreas)
next
  case (bulletHit w b a)
  from bulletHit.IH show ?case by (rule worldInvariant_handleBulletAsteroidCollision)
next
  case (playerHit w a)
  from playerHit.IH show ?case by (rule worldInvariant_handlePlayerAsteroidCollision)
next
  case (cleanup w)
  from cleanup.IH show ?case by (rule worldInvariant_cleanupOutOfBoundsAsteroids)
next
  case (cleanupBullets w)
  from cleanupBullets.IH show ?case by (rule worldInvariant_cleanupOutOfBoundsBullets)
next
  case (revert w n)
  from revert.IH show ?case by (rule worldInvariant_fireTimer)
next
  case (engine w w')
  from engine.IH engine.hyps(2) show ?case by (rule worldInvariant_engineStep)
qed


lemma newcomersFresh_same:
  assumes "asteroidsGroup w' = asteroidsGroup w"
  shows "newcomersFresh w w'"
  using assms by (simp add: newcomersFresh_def)

lemma newcomersFresh_created:
  assumes inv: "worldInvariant w"
    and add: "addAsteroidGraphics w pts x y = (w1, h, g)"
    and len: "6 \<le> length pts" "length pts \<le> 12"
  shows "newcomersFresh w (w1\<lparr>objects := (objects w1)
            (h := Some (setAsteroidData (g\<lparr>physBody := Some b\<rparr>) c (hp (ASTEROID_CATEGORIES c)) vs pts)),
            drawn := p\<rparr>)"
proof -
  have fresh: "freshAsteroid (setAsteroidData (g\<lparr>physBody := Some b\<rparr>) c (hp (ASTEROID_CATEGORIES c)) vs pts)"
    using add len hp_category_pos [of c]
    by (auto simp: freshAsteroid_def liveAsteroid_def setAsteroidData_def addAsteroidGraphics_def Let_def
        drawAsteroidShape_def newGraphics_def)
  have h: "asteroidsGroup w1 = asteroidsGroup w @ [h]"
    using add by (auto simp: addAsteroidGraphics_def Let_def)
  show ?thesis
    unfolding newcomersFresh_def using fresh h by auto
qed

lemma newcomersFresh_bodyfail:
  assumes add: "addAsteroidGraphics w pts x y = (w1, h, g)"
  shows "newcomersFresh w (removeAsteroid (w1\<lparr>drawn := p\<rparr>) h)"
proof -
  have h: "asteroidsGroup w1 = asteroidsGroup w @ [h]"
    using add by (auto simp: addAsteroidGraphics_def Let_def)
  show ?thesis
    unfolding newcomersFresh_def removeAsteroid_def using h by auto
qed

lemma newcomersFresh_spawnAsteroidInRegion:
  assumes "worldInvariant w"
  shows "newcomersFresh w (fst (spawnAsteroidInRegion w regionBounds))"
proof -
  have tr: "fst (spawnAsteroidInRegion w regionBounds) = fst (spawnAsteroidInRegionTraced w regionBounds)"
    by (auto simp: spawnAsteroidInRegion_def split: prod.splits)
  have "newcomersFresh w (fst (spawnAsteroidInRegionTraced w regionBounds))"
  proof (cases "camera w")
    case None
    then show ?thesis by (simp add: spawnAsteroidInRegionTraced_def newcomersFresh_same)
  next
    case (Some worldView)
    obtain c where c: "GetRandom (random w (drawn w)) ACTIVE_ASTEROID_CATEGORIES = Some c"
      using GetRandom_active by blast
    let ?vs = "real_of_int (Between (random w (drawn w + 1))
                 (minSize (ASTEROID_CATEGORIES c)) (maxSize (ASTEROID_CATEGORIES c)))"
    let ?nv = "Between (random w (drawn w + 2)) ASTEROID_MIN_VERTICES ASTEROID_MAX_VERTICES"
    obtain spot attempts pos where loop: "regionRetry (random w) (children w) worldView regionBounds
        ?vs (ASTEROID_CATEGORIES c) 0 (drawn w + 3) = (spot, attempts, pos)"
      by (metis prod_cases3)
    show ?thesis
    proof (cases spot)
      case None
      with Some c loop show ?thesis
        by (simp add: spawnAsteroidInRegionTraced_def Let_def newcomersFresh_same)
    next
      case sp: (Some xy)
      obtain x y where xy: "xy = (x, y)" by (cases xy)
      let ?pts = "generateAsteroidPoints (random w) pos ?vs ?nv"
      obtain w1 h g where add: "addAsteroidGraphics w ?pts x y = (w1, h, g)"
        by (metis prod_cases3)
      show ?thesis
      proof (cases "physBody g")
        case None
        from newcomersFresh_bodyfail [OF add] None Some c loop sp xy add
        show ?thesis by (simp add: spawnAsteroidInRegionTraced_def Let_def)
      next
        case bd: (Some b)
        from newcomersFresh_created [OF assms add length_generated_range] bd Some c loop sp xy add
        show ?thesis by (simp add: spawnAsteroidInRegionTraced_def Let_def)
      qed
    qed
  qed
  then show ?thesis unfolding tr .
qed

lemma newcomersFresh_spawnAsteroid:
  assumes "worldInvariant w"
  shows "newcomersFresh w (spawnAsteroid w)"
proof (cases "camera w")
  case None
  then show ?thesis by (simp add: spawnAsteroid_def newcomersFresh_same)
next
  case (Some worldView)
  obtain c where c: "GetRandom (random w (drawn w)) ACTIVE_ASTEROID_CATEGORIES = Some c"
    using GetRandom_active by blast
  let ?vs = "real_of_int (Between (random w (drawn w + 1))
               (minSize (ASTEROID_CATEGORIES c)) (maxSize (ASTEROID_CATEGORIES c)))"
  let ?nv = "Between (random w (drawn w + 2)) ASTEROID_MIN_VERTICES ASTEROID_MAX_VERTICES"
  obtain edge p0 where ce: "chooseEdge w (drawn w + 3) = (edge, p0)"
    by (cases "chooseEdge w (drawn w + 3)")
  obtain spot pos where loop: "edgeRetry (random w) (children w) worldView
      ?vs (ASTEROID_CATEGORIES c) edge 0 p0 = (spot, pos)"
    by (cases "edgeRetry (random w) (children w) worldView ?vs (ASTEROID_CATEGORIES c) edge 0 p0")
  show ?thesis
  proof (cases spot)
    case None
    with Some c ce loop show ?thesis
      by (simp add: spawnAsteroid_def Let_def newcomersFresh_same)
  next
    case sp: (Some xy)
    obtain x y where xy: "xy = (x, y)" by (cases xy)
    let ?pts = "generateAsteroidPoints (random w) pos ?vs ?nv"
    obtain w1 h g where add: "addAsteroidGraphics w ?pts x y = (w1, h, g)"
      by (metis prod_cases3)
    show ?thesis
    proof (cases "physBody g")
      case None
      from newcomersFresh_bodyfail [OF add] None Some c ce loop sp xy add
      show ?thesis by (simp add: spawnAsteroid_def Let_def)
    next
      case bd: (Some b)
      from newcomersFresh_created [OF assms add length_generated_range] bd Some c ce loop sp xy add
      show ?thesis by (simp add: spawnAsteroid_def Let_def)
    qed
  qed
qed

lemma newcomersFresh_spawnAsteroidInView:
  assumes "worldInvariant w"
  shows "newcomersFresh w (spawnAsteroidInView w)"
proof (cases "camera w")
  case None
  then show ?thesis by (simp add: spawnAsteroidInView_def newcomersFresh_same)
next
  case (Some cam)
  obtain c where c: "GetRandom (random w (drawn w)) ACTIVE_ASTEROID_CATEGORIES = Some c"
    using GetRandom_active by blast
  let ?vs = "real_of_int (Between (random w (drawn w + 1))
               (minSize (ASTEROID_CATEGORIES c)) (maxSize (ASTEROID_CATEGORIES c)))"
  let ?nv = "Between (random w (drawn w + 2)) ASTEROID_MIN_VERTICES ASTEROID_MAX_VERTICES"
  obtain spot pos where loop: "viewRetry (random w) (children w) (scaleWidth w) (scaleHeight w)
      ?vs (ASTEROID_CATEGORIES c) 0 (drawn w + 3) = (spot, pos)"
    by (cases "viewRetry (random w) (children w) (scaleWidth w) (scaleHeight w)
      ?vs (ASTEROID_CATEGORIES c) 0 (drawn w + 3)")
  show ?thesis
  proof (cases spot)
    case None
    have "newcomersFresh (w\<lparr>drawn := pos\<rparr>) (spawnAsteroid (w\<lparr>drawn := pos\<rparr>))"
      using assms by (intro newcomersFresh_spawnAsteroid) (simp add: worldInvariant_drawn)
    then have "newcomersFresh w (spawnAsteroid (w\<lparr>drawn := pos\<rparr>))"
      by (simp add: newcomersFresh_def)
    with Some c loop None show ?thesis
      by (simp add: spawnAsteroidInView_def Let_def)
  next
    case sp: (Some xy)
    obtain x y where xy: "xy = (x, y)" by (cases xy)
    let ?pts = "generateAsteroidPoints (random w) pos ?vs ?nv"
    obtain w1 h g where add: "addAsteroidGraphics w ?pts x y = (w1, h, g)"
      by (metis prod_cases3)
    show ?thesis
    proof (cases "physBody g")
      case None
      from newcomersFresh_bodyfail [OF add] None Some c loop sp xy add
      show ?thesis by (simp add: spawnAsteroidInView_def Let_def)
    next
      case bd: (Some b)
      from newcomersFresh_created [OF assms add length_generated_range] bd Some c loop sp xy add
      show ?thesis by (simp add: spawnAsteroidInView_def Let_def)
    qed
  qed
qed

lemma lethal_hit_removes:
  assumes "bulletObjects w b = Some bullet" "bulletActive bullet"
    and "objects w t = Some target" "active target" "physBody target \<noteq> None"
    and "dataHitPoints target = Some n" "n - 1 \<le> 0"
  shows "t \<notin> set (asteroidsGroup (handleBulletAsteroidCollision w b t))"
    and "\<exists>gone. objects (handleBulletAsteroidCollision w b t) t = Some gone \<and> \<not> active gone"
  using assms
  by (auto simp: handleBulletAsteroidCollision_def Let_def removeAsteroid_def destroyBullet_def
      destroyObject_def)


text \<open>
  What holds in every reachable world: each asteroid of the group is an active object
  with a body whose \<open>hitPoints\<close> are positive (and at most the hit points of its
  category, which are 1, 2 or 3) and whose stored outline has at least 3 points, in fact
  between 6 and 12. Every spawn function, called in a reachable world, leaves each
  asteroid it adds to the group with exactly the hit points of its category and such an
  outline; and a bullet hit that brings \<open>hitPoints\<close> to 0 takes the asteroid out of the
  group and destroys it within the same call of the handler.
\<close>

lemma reachable_live_asteroids:
  "(reachable w \<and> h \<in> set (asteroidsGroup w) \<longrightarrow>
      (\<exists>a c n pts. objects w h = Some a \<and> active a \<and> physBody a \<noteq> None
          \<and> dataCategory a = Some c \<and> dataHitPoints a = Some n
          \<and> 0 < n \<and> n \<le> hp (ASTEROID_CATEGORIES c)
          \<and> dataPoints a = Some pts \<and> 3 \<le> length pts \<and> 6 \<le> length pts \<and> length pts \<le> 12))
   \<and> hp (ASTEROID_CATEGORIES k) \<in> {1, 2, 3}
   \<and> (reachable ws \<longrightarrow>
          newcomersFresh ws (spawnAsteroidInView ws) \<and> newcomersFresh ws (spawnAsteroid ws)
          \<and> newcomersFresh ws (fst (spawnAsteroidInRegion ws regionBounds)))
   \<and> (bulletObjects wh b = Some bullet \<and> bulletActive bullet
        \<and> objects wh t = Some target \<and> active target \<and> physBody target \<noteq> None
        \<and> dataHitPoints target = Some m \<and> m - 1 \<le> 0
      \<longrightarrow> t \<notin> set (asteroidsGroup (handleBulletAsteroidCollision wh b t))
          \<and> (\<exists>gone. objects (handleBulletAsteroidCollision wh b t) t = Some gone \<and> \<not> active gone))"
proof -
  have inv: "\<exists>a c n pts. objects w h = Some a \<and> active a \<and> physBody a \<noteq> None
          \<and> dataCategory a = Some c \<and> dataHitPoints a = Some n
          \<and> 0 < n \<and> n \<le> hp (ASTEROID_CATEGORIES c)
          \<and> dataPoints a = Some pts \<and> 3 \<le> length pts \<and> 6 \<le> length pts \<and> length pts \<le> 12"
    if "reachable w \<and> h \<in> set (asteroidsGroup w)"
  proof -
    from that have "worldInvariant w" by (simp add: reachable_worldInvariant)
    with that obtain a where a: "objects w h = Some a" "liveAsteroid a"
      by (auto simp: worldInvariant_def)
    from a(2) obtain c n pts where "active a" "physBody a \<noteq> None" "dataCategory a = Some c"
        "dataHitPoints a = Some n" "0 < n" "n \<le> hp (ASTEROID_CATEGORIES c)"
        "dataPoints a = Some pts" "6 \<le> length pts" "length pts \<le> 12"
      unfolding liveAsteroid_def by blast
    moreover from \<open>6 \<le> length pts\<close> have "3 \<le> length pts" by simp
    ultimately show ?thesis using a(1) by blast
  qed
  have spawn: "newcomersFresh ws (spawnAsteroidInView ws) \<and> newcomersFresh ws (spawnAsteroid ws)
          \<and> newcomersFresh ws (fst (spawnAsteroidInRegion ws regionBounds))"
    if "reachable ws"
    using reachable_worldInvariant [OF that]
    by (simp add: newcomersFresh_spawnAsteroidInView newcomersFresh_spawnAsteroid
        newcomersFresh_spawnAsteroidInRegion)
  have hit: "t \<notin> set (asteroidsGroup (handleBulletAsteroidCollision wh b t))
          \<and> (\<exists>gone. objects (handleBulletAsteroidCollision wh b t) t = Some gone \<and> \<not> active gone)"
    if "bulletObjects wh b = Some bullet \<and> bulletActive bullet
        \<and> objects wh t = Some target \<and> active target \<and> physBody target \<noteq> None
        \<and> dataHitPoints target = Some m \<and> m - 1 \<le> 0"
    using that lethal_hit_removes [of wh b bullet t target m] by blast
  from inv hp_category [of k] spawn hit show ?thesis by blast
qed

lemma reachable_live_asteroids_start:
  "(\<exists>a n pts. objects (spawnAsteroidInView startWorld) 0 = Some a \<and> active a
        \<and> dataHitPoints a = Some n \<and> 0 < n \<and> n \<le> 3
        \<and> dataPoints a = Some pts \<and> 6 \<le> length pts \<and> length pts \<le> 12)
   \<and> newcomersFresh startWorld (spawnAsteroidInView startWorld)
   \<and> 0 \<notin> set (asteroidsGroup (handleBulletAsteroidCollision (targetWorld 1) 0 0))"
proof -
  let ?bl = "\<lparr>bulletX = 1000, bulletY = 0, bulletActive = True, bulletHasBody = True\<rparr>"
  let ?tg = "(circleAsteroid 1000 0 20)\<lparr>dataCategory := Some M, dataHitPoints := Some 1,
                                dataPoints := Some squareOutline, dataIsHit := Some False\<rparr>"
  have r0: "reachable startWorld"
    by (rule reachable.start) (simp add: emptyWorld_def startWorld_def)
  then have r1: "reachable (spawnAsteroidInView startWorld)" by (rule reachable.inView)
  have m: "0 \<in> set (asteroidsGroup (spawnAsteroidInView startWorld))"
    using first_request by simp
  have sc: "bulletObjects (targetWorld 1) 0 = Some ?bl \<and> bulletActive ?bl
        \<and> objects (targetWorld 1) 0 = Some ?tg \<and> active ?tg \<and> physBody ?tg \<noteq> None
        \<and> dataHitPoints ?tg = Some 1 \<and> (1::int) - 1 \<le> 0"
    by (simp add: targetWorld_def circleAsteroid_def)
  note th = reachable_live_asteroids [where w = "spawnAsteroidInView startWorld"
      and h = 0 and ws = startWorld and wh = "targetWorld 1" and b = 0 and t = 0 and bullet = ?bl
      and target = ?tg and m = 1]
  from th r1 m obtain a c n pts where a: "objects (spawnAsteroidInView startWorld) 0 = Some a" "active a"
      "dataCategory a = Some c" "dataHitPoints a = Some n" "0 < n" "n \<le> hp (ASTEROID_CATEGORIES c)"
      "dataPoints a = Some pts" "6 \<le> length pts" "length pts \<le> 12"
    by blast
  from th have "hp (ASTEROID_CATEGORIES c) \<in> {1, 2, 3}" using hp_category by blast
  with a(6) have "n \<le> 3" by auto
  moreover from th r0 have "newcomersFresh startWorld (spawnAsteroidInView startWorld)" by blast
  moreover from th sc have "0 \<notin> set (asteroidsGroup (handleBulletAsteroidCollision (targetWorld 1) 0 0))"
    by blast
  ultimately show ?thesis using a by blast
qed

lemma Rep_topDraw: "Rep_draw topDraw = 1 - 1 / 2 ^ 53"
  unfolding topDraw_def by (rule Abs_draw_inverse) simp

lemma top_vertices: "Between topDraw 6 11 = 12"
proof -
  have a: "binary64 ((1 - 1 / 2 ^ 53) * 6) = 6 - 1 / 2 ^ 50"
    by (subst binary64_eval [of 2]) (simp_all add: roundTiesToEven_def Let_def)
  have b: "binary64 (6 - 1 / 2 ^ 50 + 6) = 12"
    by (subst binary64_eval [of 3]) (simp_all add: roundTiesToEven_def Let_def)
  have e: "(11::real) - 6 + 1 = 6" by simp
  have f: "\<lfloor>12::real\<rfloor> = 12" by simp
  show ?thesis by (simp only: Between_def Rep_topDraw e a b f)
qed

lemma top_size: "Between topDraw 25 40 = 41"
proof -
  have a: "binary64 ((1 - 1 / 2 ^ 53) * 16) = 16 - 1 / 2 ^ 49"
    by (subst binary64_eval [of 3]) (simp_all add: roundTiesToEven_def Let_def)
  have b: "binary64 (16 - 1 / 2 ^ 49 + 25) = 41"
    by (subst binary64_eval [of 5]) (simp_all add: roundTiesToEven_def Let_def)
  have e: "(40::real) - 25 + 1 = 16" by simp
  have f: "\<lfloor>41::real\<rfloor> = 41" by simp
  show ?thesis by (simp only: Between_def Rep_topDraw e a b f)
qed

lemma topVerticesWorld_far_run:
  "snd (spawnAsteroidInRegionTraced topVerticesWorld farRegion) = (Some 0, 1)"
  unfolding spawnAsteroidInRegionTraced_def
  apply (subst regionRetry.simps)
  apply (simp add: topVerticesWorld_def startWorld_def farRegion_def mkRectangle_def GetRandom_def
      ACTIVE_ASTEROID_CATEGORIES_def Rep_midDraw FloatBetween_def Contains_def left_def right_def
      top_of_def bottom_def children_def SPAWN_MAX_RETRIES_def addAsteroidGraphics_def
      drawAsteroidShape_def newGraphics_def Let_def)
  done

text \<open>
  Claim C8, where the code departs from it. The number of vertices of an outline is
  \<open>Phaser.Math.Between(ASTEROID_MIN_VERTICES, ASTEROID_MAX_VERTICES)\<close>, that is
  \<open>Math.floor(Math.random() * 6 + 6)\<close>. When \<open>Math.random()\<close> returns the largest double
  below 1, the product rounds to \<open>6 - 1 / 2 ^ 50\<close> and the sum to 12, so the count is 12.
  In the start world, which is reachable, with that value as the draw for the count,
  \<open>spawnAsteroidInRegion\<close> creates asteroid 0, puts it in the group and stores an
  outline of 12 points for it: not the 6 to 11 points of the claim. Its hit points are
  positive, as the claim says.
\<close>

theorem spawned_outline_of_twelve_points:
  "Between topDraw ASTEROID_MIN_VERTICES ASTEROID_MAX_VERTICES = 12
   \<and> reachable topVerticesWorld
   \<and> snd (spawnAsteroidInRegion topVerticesWorld farRegion) = Some 0
   \<and> asteroidsGroup (fst (spawnAsteroidInRegion topVerticesWorld farRegion)) = [0]
   \<and> (\<exists>g n pts. objects (fst (spawnAsteroidInRegion topVerticesWorld farRegion)) 0 = Some g
          \<and> active g \<and> dataHitPoints g = Some n \<and> 0 < n
          \<and> dataPoints g = Some pts \<and> length pts = 12)"
proof -
  have v: "Between topDraw ASTEROID_MIN_VERTICES ASTEROID_MAX_VERTICES = 12"
    using top_vertices by (simp add: ASTEROID_MIN_VERTICES_def ASTEROID_MAX_VERTICES_def)
  have r: "reachable topVerticesWorld"
    by (rule reachable.start) (simp add: emptyWorld_def topVerticesWorld_def startWorld_def)
  obtain w' where tr: "spawnAsteroidInRegionTraced topVerticesWorld farRegion = (w', Some 0, 1)"
    using topVerticesWorld_far_run by (cases "spawnAsteroidInRegionTraced topVerticesWorld farRegion") simp
  then have run: "spawnAsteroidInRegion topVerticesWorld farRegion = (w', Some 0)"
    by (simp add: spawnAsteroidInRegion_def)
  from spawnTraced_Some_frame [OF tr] obtain g where
    g: "objects w' 0 = Some g" and grp: "asteroidsGroup w' = [0]"
    by (auto simp: topVerticesWorld_def startWorld_def)
  from spawnTraced_Some_object [OF tr g] obtain c p where
    act: "active g" and hpg: "dataHitPoints g = Some (hp (ASTEROID_CATEGORIES c))" and
    pts: "dataPoints g = Some (generateAsteroidPoints (random topVerticesWorld) p
               (real_of_int (Between (random topVerticesWorld (drawn topVerticesWorld + 1))
                  (minSize (ASTEROID_CATEGORIES c)) (maxSize (ASTEROID_CATEGORIES c))))
               (Between (random topVerticesWorld (drawn topVerticesWorld + 2))
                  ASTEROID_MIN_VERTICES ASTEROID_MAX_VERTICES))"
    by blast
  have d: "random topVerticesWorld (drawn topVerticesWorld + 2) = topDraw"
    by (simp add: topVerticesWorld_def startWorld_def)
  have len: "length (generateAsteroidPoints (random topVerticesWorld) p
               (real_of_int (Between (random topVerticesWorld (drawn topVerticesWorld + 1))
                  (minSize (ASTEROID_CATEGORIES c)) (maxSize (ASTEROID_CATEGORIES c))))
               (Between (random topVerticesWorld (drawn topVerticesWorld + 2))
                  ASTEROID_MIN_VERTICES ASTEROID_MAX_VERTICES)) = 12"
    unfolding d v length_generateAsteroidPoints by simp
  from v r run g grp act hpg hp_category_pos [of c] pts len show ?thesis by simp
qed


section \<open>The outline generator\<close>

text \<open>
  The ring through points given in polar form, with positive radii and angles that
  grow by less than a half turn from each point to the next and close after exactly
  one full turn, is a simple polygon.  A ring whose edges cross is not.
\<close>

lemma crossing_ring_not_simple:
  "\<not> simplePolygon [(0, 0), (1, 1), (1, 0), (0, 1)]"
proof
  assume simple: "simplePolygon [(0, 0), (1, 1), (1, 0), (0, 1)]"
  have "segmentPoint ([(0, 0), (1, 1), (1, 0), (0, 1)] ! 0)
            ([(0, 0), (1, 1), (1, 0), (0, 1)] ! (Suc 0 mod length [(0::real, 0::real), (1, 1), (1, 0), (0, 1)])) (1 / 2)
        = segmentPoint ([(0, 0), (1, 1), (1, 0), (0, 1)] ! 2)
            ([(0, 0), (1, 1), (1, 0), (0, 1)] ! (Suc 2 mod length [(0::real, 0::real), (1, 1), (1, 0), (0, 1)])) (1 / 2)"
    by (simp add: segmentPoint_def)
  with simple [unfolded simplePolygon_def, rule_format, of 0 2 "1 / 2" "1 / 2"]
  show False by simp
qed

lemma polar_form:
  fixes x y :: real
  assumes "x \<noteq> 0 \<or> y \<noteq> 0"
  obtains r phi where "0 < r" "x = r * cos phi" "y = r * sin phi"
proof -
  define r where "r = sqrt (x\<^sup>2 + y\<^sup>2)"
  have "0 < x\<^sup>2 + y\<^sup>2" using assms by (auto simp: sum_power2_gt_zero_iff)
  then have r: "0 < r" by (simp add: r_def)
  have r2: "r\<^sup>2 = x\<^sup>2 + y\<^sup>2" by (simp add: r_def)
  have "(x / r)\<^sup>2 + (y / r)\<^sup>2 = (x\<^sup>2 + y\<^sup>2) / r\<^sup>2"
    by (simp add: power_divide add_divide_distrib)
  also have "\<dots> = 1" using r unfolding r2 [symmetric] by simp
  finally have "(x / r)\<^sup>2 + (y / r)\<^sup>2 = 1" .
  then obtain t where "x / r = cos t" "y / r = sin t"
    by (rule sincos_total_2pi)
  then have "x = r * cos t" "y = r * sin t"
    using r by (simp_all add: field_simps)
  with r show ?thesis by (rule that)
qed

lemma angle_into_window:
  fixes alpha phi :: real
  obtains k :: int where "alpha \<le> phi + 2 * pi * real_of_int k" "phi + 2 * pi * real_of_int k < alpha + 2 * pi"
proof -
  define q where "q = (phi - alpha) / (2 * pi)"
  define k where "k = - \<lfloor>q\<rfloor>"
  have q: "phi - alpha = q * (2 * pi)" by (simp add: q_def)
  have fl: "real_of_int \<lfloor>q\<rfloor> \<le> q" "q < real_of_int \<lfloor>q\<rfloor> + 1" by linarith+
  have p: "0 < 2 * pi" by simp
  have "real_of_int \<lfloor>q\<rfloor> * (2 * pi) \<le> q * (2 * pi)"
    using fl(1) p by (intro mult_right_mono) simp_all
  moreover have "q * (2 * pi) < (real_of_int \<lfloor>q\<rfloor> + 1) * (2 * pi)"
    using fl(2) p by (intro mult_strict_right_mono) simp_all
  ultimately have "alpha \<le> phi + 2 * pi * real_of_int k" "phi + 2 * pi * real_of_int k < alpha + 2 * pi"
    unfolding k_def using q by (simp_all add: algebra_simps)
  then show ?thesis by (rule that)
qed

lemma cos_sin_shift:
  "cos (phi + 2 * pi * real_of_int k) = cos phi" "sin (phi + 2 * pi * real_of_int k) = sin phi"
  by (simp_all add: cos_add sin_add)

lemma sin_nonneg_upper:
  fixes x :: real
  assumes "0 \<le> x" "x < 2 * pi" "0 \<le> sin x"
  shows "x \<le> pi"
proof (rule ccontr)
  assume "\<not> x \<le> pi"
  then have "sin x < 0" using assms(2) by (intro sin_lt_zero) simp_all
  with assms(3) show False by simp
qed

lemma sin_nonneg_lower:
  fixes x :: real
  assumes "- pi < x" "x < pi" "0 \<le> sin x"
  shows "0 \<le> x"
proof (rule ccontr)
  assume "\<not> 0 \<le> x"
  then have "0 < sin (- x)" using assms(1) by (intro sin_gt_zero) simp_all
  with assms(3) show False by simp
qed

lemma sin_zero_small:
  fixes x :: real
  assumes "0 \<le> x" "x < pi" "sin x = 0"
  shows "x = 0"
proof (rule ccontr)
  assume "x \<noteq> 0"
  with assms(1,2) have "0 < sin x" by (intro sin_gt_zero) simp_all
  with assms(3) show False by simp
qed

lemma same_direction:
  fixes r r' :: real
  assumes "0 < r" "0 < r'" "r * cos phi = r' * cos phi'" "r * sin phi = r' * sin phi'"
  obtains k :: int where "phi' = phi + 2 * pi * real_of_int k"
proof -
  have "(r * cos phi)\<^sup>2 + (r * sin phi)\<^sup>2 = (r' * cos phi')\<^sup>2 + (r' * sin phi')\<^sup>2"
    by (simp only: assms(3,4))
  then have "r\<^sup>2 * ((cos phi)\<^sup>2 + (sin phi)\<^sup>2) = r'\<^sup>2 * ((cos phi')\<^sup>2 + (sin phi')\<^sup>2)"
    by (simp only: power_mult_distrib distrib_left)
  then have "r\<^sup>2 = r'\<^sup>2" by simp
  with assms(1,2) have "r = r'" by (simp add: power2_eq_iff_nonneg)
  with assms have "sin phi' = sin phi \<and> cos phi' = cos phi" by simp
  then obtain k :: int where "phi' = phi + 2 * pi * real_of_int k"
    unfolding sin_cos_eq_iff by blast
  then show ?thesis by (rule that)
qed


lemma segment_in_sector:
  fixes rP rQ alpha beta s :: real
  assumes rho: "0 < rP" "0 < rQ" and gap: "0 < beta - alpha" "beta - alpha < pi"
    and s: "0 \<le> s" "s \<le> 1"
    and X: "X = (1 - s) * (cos alpha * rP) + s * (cos beta * rQ)"
    and Y: "Y = (1 - s) * (sin alpha * rP) + s * (sin beta * rQ)"
  obtains r phi where "0 < r" "X = r * cos phi" "Y = r * sin phi" "alpha \<le> phi" "phi \<le> beta"
    "phi = alpha \<longleftrightarrow> s = 0" "phi = beta \<longleftrightarrow> s = 1"
proof -
  have sg: "0 < sin (beta - alpha)" using gap by (rule sin_gt_zero)
  have c1: "cos alpha * Y - sin alpha * X = s * rQ * sin (beta - alpha)"
    unfolding X Y sin_diff by (simp add: algebra_simps)
  have c2: "X * sin beta - Y * cos beta = (1 - s) * rP * sin (beta - alpha)"
    unfolding X Y sin_diff by (simp add: algebra_simps)
  have nz: "X \<noteq> 0 \<or> Y \<noteq> 0"
  proof (rule ccontr)
    assume "\<not> (X \<noteq> 0 \<or> Y \<noteq> 0)"
    then have z: "X = 0" "Y = 0" by simp_all
    from c1 z sg rho(2) have "s = 0" by simp
    moreover from c2 z sg rho(1) have "s = 1" by simp
    ultimately show False by simp
  qed
  from nz obtain r phi0 where r: "0 < r" and p0: "X = r * cos phi0" "Y = r * sin phi0"
    by (rule polar_form)
  obtain k :: int where k: "alpha \<le> phi0 + 2 * pi * real_of_int k"
      "phi0 + 2 * pi * real_of_int k < alpha + 2 * pi"
    by (rule angle_into_window)
  define phi where "phi = phi0 + 2 * pi * real_of_int k"
  have XY: "X = r * cos phi" "Y = r * sin phi"
    unfolding phi_def cos_sin_shift by (rule p0)+
  have lo: "alpha \<le> phi" and win: "phi < alpha + 2 * pi" using k by (simp_all add: phi_def)
  have "r * sin (phi - alpha) = cos alpha * (r * sin phi) - sin alpha * (r * cos phi)"
    unfolding sin_diff by (simp add: algebra_simps)
  then have e1: "r * sin (phi - alpha) = s * rQ * sin (beta - alpha)"
    unfolding XY [symmetric] c1 .
  have "r * sin (beta - phi) = (r * cos phi) * sin beta - (r * sin phi) * cos beta"
    unfolding sin_diff by (simp add: algebra_simps)
  then have e2: "r * sin (beta - phi) = (1 - s) * rP * sin (beta - alpha)"
    unfolding XY [symmetric] c2 .
  have "0 \<le> s * rQ * sin (beta - alpha)" using s(1) rho(2) sg by simp
  then have "0 \<le> r * sin (phi - alpha)" unfolding e1 .
  with r have sn1: "0 \<le> sin (phi - alpha)" by (simp add: zero_le_mult_iff)
  have "0 \<le> phi - alpha" "phi - alpha < 2 * pi" using lo win by linarith+
  from sin_nonneg_upper [OF this sn1] have up1: "phi - alpha \<le> pi" .
  have "0 \<le> (1 - s) * rP * sin (beta - alpha)" using s(2) rho(1) sg by simp
  then have "0 \<le> r * sin (beta - phi)" unfolding e2 .
  with r have sn2: "0 \<le> sin (beta - phi)" by (simp add: zero_le_mult_iff)
  have "- pi < beta - phi" "beta - phi < pi" using up1 gap lo by linarith+
  from sin_nonneg_lower [OF this sn2] have hi: "phi \<le> beta" by simp
  have a: "phi = alpha \<longleftrightarrow> s = 0"
  proof
    assume "phi = alpha"
    with e1 have "s * rQ * sin (beta - alpha) = 0" by simp
    with rho(2) sg show "s = 0" by simp
  next
    assume "s = 0"
    with e1 r have z: "sin (phi - alpha) = 0" by simp
    have "0 \<le> phi - alpha" "phi - alpha < pi" using lo hi gap by linarith+
    from sin_zero_small [OF this z] show "phi = alpha" by simp
  qed
  have b: "phi = beta \<longleftrightarrow> s = 1"
  proof
    assume "phi = beta"
    with e2 have "(1 - s) * rP * sin (beta - alpha) = 0" by simp
    with rho(1) sg show "s = 1" by simp
  next
    assume "s = 1"
    with e2 r have z: "sin (beta - phi) = 0" by simp
    have "0 \<le> beta - phi" "beta - phi < pi" using lo hi gap by linarith+
    from sin_zero_small [OF this z] show "phi = beta" by simp
  qed
  from r XY lo hi a b show ?thesis by (rule that)
qed

lemma segment_injective:
  fixes rP rQ alpha beta s t :: real
  assumes rho: "0 < rP" "0 < rQ" and gap: "0 < beta - alpha" "beta - alpha < pi"
    and X: "(1 - s) * (cos alpha * rP) + s * (cos beta * rQ)
            = (1 - t) * (cos alpha * rP) + t * (cos beta * rQ)"
    and Y: "(1 - s) * (sin alpha * rP) + s * (sin beta * rQ)
            = (1 - t) * (sin alpha * rP) + t * (sin beta * rQ)"
  shows "s = t"
proof -
  have sg: "0 < sin (beta - alpha)" using gap by (rule sin_gt_zero)
  define dx where "dx = cos beta * rQ - cos alpha * rP"
  define dy where "dy = sin beta * rQ - sin alpha * rP"
  have x: "(s - t) * dx = 0" using X by (simp add: dx_def algebra_simps)
  have y: "(s - t) * dy = 0" using Y by (simp add: dy_def algebra_simps)
  have cr: "cos alpha * dy - sin alpha * dx = rQ * sin (beta - alpha)"
    unfolding dx_def dy_def sin_diff by (simp add: algebra_simps)
  have "(s - t) * (cos alpha * dy - sin alpha * dx)
      = cos alpha * ((s - t) * dy) - sin alpha * ((s - t) * dx)"
    by (simp add: algebra_simps)
  also have "\<dots> = 0" unfolding x y by simp
  finally have "(s - t) * (rQ * sin (beta - alpha)) = 0" unfolding cr .
  then show ?thesis using rho(2) sg by simp
qed


lemma ring_angles_mono:
  fixes theta :: "nat \<Rightarrow> real"
  assumes gap: "\<And>k. k < n \<Longrightarrow> 0 < theta (Suc k) - theta k"
  shows "a < b \<Longrightarrow> b \<le> n \<Longrightarrow> theta a < theta b"
proof (induction b)
  case 0
  then show ?case by simp
next
  case (Suc b)
  have step: "theta b < theta (Suc b)" using gap [of b] Suc.prems(2) by simp
  show ?case
  proof (cases "a = b")
    case True
    with step show ?thesis by simp
  next
    case False
    with Suc.prems have "a < b" "b \<le> n" by simp_all
    with Suc.IH step show ?thesis by simp
  qed
qed

lemma ring_angles_mono_le:
  fixes theta :: "nat \<Rightarrow> real"
  assumes gap: "\<And>k. k < n \<Longrightarrow> 0 < theta (Suc k) - theta k"
    and "a \<le> b" "b \<le> n"
  shows "theta a \<le> theta b"
proof (cases "a = b")
  case True
  then show ?thesis by simp
next
  case False
  with assms(2) have "a < b" by simp
  have "theta a < theta b"
    by (rule ring_angles_mono [of n theta, OF gap \<open>a < b\<close> assms(3)]) assumption
  then show ?thesis by simp
qed

lemma ring_meeting_points:
  fixes theta rho :: "nat \<Rightarrow> real"
  assumes rho: "\<And>k. k \<le> n \<Longrightarrow> 0 < rho k"
    and gap: "\<And>k. k < n \<Longrightarrow> 0 < theta (Suc k) - theta k"
    and gap_pi: "\<And>k. k < n \<Longrightarrow> theta (Suc k) - theta k < pi"
    and wrap: "theta n = theta 0 + 2 * pi"
    and ij: "i \<le> j" "j < n" and s: "0 \<le> s" "s \<le> 1" and t: "0 \<le> t" "t \<le> 1"
    and X: "(1 - s) * (cos (theta i) * rho i) + s * (cos (theta (Suc i)) * rho (Suc i))
            = (1 - t) * (cos (theta j) * rho j) + t * (cos (theta (Suc j)) * rho (Suc j))"
    and Y: "(1 - s) * (sin (theta i) * rho i) + s * (sin (theta (Suc i)) * rho (Suc i))
            = (1 - t) * (sin (theta j) * rho j) + t * (sin (theta (Suc j)) * rho (Suc j))"
  shows "(i = j \<and> s = t) \<or> (Suc i = j \<and> s = 1 \<and> t = 0) \<or> (i = 0 \<and> Suc j = n \<and> s = 0 \<and> t = 1)"
proof (cases "i = j")
  case True
  have i: "i < n" "i \<le> n" "Suc i \<le> n" using ij True by simp_all
  have X': "(1 - s) * (cos (theta i) * rho i) + s * (cos (theta (Suc i)) * rho (Suc i))
            = (1 - t) * (cos (theta i) * rho i) + t * (cos (theta (Suc i)) * rho (Suc i))"
    and Y': "(1 - s) * (sin (theta i) * rho i) + s * (sin (theta (Suc i)) * rho (Suc i))
            = (1 - t) * (sin (theta i) * rho i) + t * (sin (theta (Suc i)) * rho (Suc i))"
    using X Y True by simp_all
  have "s = t"
    by (rule segment_injective [OF rho [OF i(2)] rho [OF i(3)] gap [OF i(1)] gap_pi [OF i(1)] X' Y'])
  with True show ?thesis by simp
next
  case False
  with ij have lt: "i < j" by simp
  have i: "i < n" using lt ij by simp
  have mono: "theta a < theta b" if "a < b" "b \<le> n" for a b
    by (rule ring_angles_mono [of n theta, OF gap that]) assumption
  have mono_le: "theta a \<le> theta b" if "a \<le> b" "b \<le> n" for a b
    by (rule ring_angles_mono_le [of n theta, OF gap that]) assumption
  obtain r phi where p: "0 < r"
      "(1 - s) * (cos (theta i) * rho i) + s * (cos (theta (Suc i)) * rho (Suc i)) = r * cos phi"
      "(1 - s) * (sin (theta i) * rho i) + s * (sin (theta (Suc i)) * rho (Suc i)) = r * sin phi"
      "theta i \<le> phi" "phi \<le> theta (Suc i)"
      "phi = theta i \<longleftrightarrow> s = 0" "phi = theta (Suc i) \<longleftrightarrow> s = 1"
    using segment_in_sector [where rP = "rho i" and rQ = "rho (Suc i)" and alpha = "theta i"
        and beta = "theta (Suc i)" and s = s, OF rho rho gap gap_pi s refl refl] i by auto
  obtain r' phi' where p': "0 < r'"
      "(1 - t) * (cos (theta j) * rho j) + t * (cos (theta (Suc j)) * rho (Suc j)) = r' * cos phi'"
      "(1 - t) * (sin (theta j) * rho j) + t * (sin (theta (Suc j)) * rho (Suc j)) = r' * sin phi'"
      "theta j \<le> phi'" "phi' \<le> theta (Suc j)"
      "phi' = theta j \<longleftrightarrow> t = 0" "phi' = theta (Suc j) \<longleftrightarrow> t = 1"
    using segment_in_sector [where rP = "rho j" and rQ = "rho (Suc j)" and alpha = "theta j"
        and beta = "theta (Suc j)" and s = t, OF rho rho gap gap_pi t refl refl] ij by auto
  have "r * cos phi = r' * cos phi'" "r * sin phi = r' * sin phi'"
    using X Y p(2,3) p'(2,3) by simp_all
  from same_direction [OF p(1) p'(1) this] obtain k :: int
    where k: "phi' = phi + 2 * pi * real_of_int k" by blast
  have o1: "theta (Suc i) \<le> theta j" using lt ij by (intro mono_le) simp_all
  have o0: "theta 0 \<le> theta i" using i by (intro mono_le) simp_all
  have o2: "theta (Suc j) \<le> theta n" using ij by (intro mono_le) simp_all
  have lo: "0 \<le> 2 * pi * real_of_int k" using k p(5) p'(4) o1 by linarith
  have hi: "2 * pi * real_of_int k \<le> 2 * pi * 1" using k p(4) p'(5) o0 o2 wrap by linarith
  have pp: "0 < 2 * pi" by simp
  have "(2 * pi) * 0 \<le> (2 * pi) * real_of_int k" using lo by simp
  then have k0: "0 \<le> real_of_int k" unfolding mult_le_cancel_left_pos [OF pp] .
  have "(2 * pi) * real_of_int k \<le> (2 * pi) * 1" using hi by simp
  then have k1: "real_of_int k \<le> 1" unfolding mult_le_cancel_left_pos [OF pp] .
  from k0 k1 have "0 \<le> k" "k \<le> 1" by linarith+
  then consider "k = 0" | "k = 1" by linarith
  then show ?thesis
  proof cases
    case 1
    with k have e: "phi' = phi" by simp
    with p(5) p'(4) o1 have e1: "phi = theta (Suc i)" and e2: "phi' = theta j"
      and e3: "theta (Suc i) = theta j" by linarith+
    have "Suc i = j"
    proof (rule ccontr)
      assume "Suc i \<noteq> j"
      with lt have "Suc i < j" by simp
      from mono [OF this] ij e3 show False by simp
    qed
    with e1 e2 p(7) p'(6) show ?thesis by simp
  next
    case 2
    with k have e: "phi' = phi + 2 * pi" by simp
    with p(4) p'(5) o0 o2 wrap have e1: "phi = theta i" "theta i = theta 0"
      and e2: "phi' = theta (Suc j)" "theta (Suc j) = theta n" by linarith+
    have "i = 0"
    proof (rule ccontr)
      assume "i \<noteq> 0"
      then have "0 < i" by simp
      from mono [OF this] i e1(2) show False by simp
    qed
    moreover have "Suc j = n"
    proof (rule ccontr)
      assume "Suc j \<noteq> n"
      with ij have "Suc j < n" by simp
      from mono [OF this] e2(2) show False by simp
    qed
    ultimately show ?thesis using e1(1) e2(1) p(6) p'(7) by simp
  qed
qed


lemma simplePolygon_ring:
  fixes theta rho :: "nat \<Rightarrow> real"
  assumes n: "0 < n"
    and rho: "\<And>k. k < n \<Longrightarrow> 0 < rho k"
    and gap: "\<And>k. Suc k < n \<Longrightarrow> 0 < theta (Suc k) - theta k \<and> theta (Suc k) - theta k < pi"
    and wrap: "0 < theta 0 + 2 * pi - theta (n - 1)" "theta 0 + 2 * pi - theta (n - 1) < pi"
  shows "simplePolygon (map (\<lambda>k. (cos (theta k) * rho k, sin (theta k) * rho k)) [0 ..< n])"
proof -
  define th where "th k = (if k < n then theta k else theta 0 + 2 * pi)" for k
  define rh where "rh k = (if k < n then rho k else rho 0)" for k
  let ?ps = "map (\<lambda>k. (cos (theta k) * rho k, sin (theta k) * rho k)) [0 ..< n]"
  have len: "length ?ps = n" by simp
  have pt: "?ps ! k = (cos (th k) * rh k, sin (th k) * rh k)" if "k < n" for k
    using that by (simp add: th_def rh_def)
  have nx: "?ps ! (Suc k mod n) = (cos (th (Suc k)) * rh (Suc k), sin (th (Suc k)) * rh (Suc k))"
    if "k < n" for k
  proof (cases "Suc k < n")
    case True
    then show ?thesis by (simp add: th_def rh_def)
  next
    case False
    with that have e: "Suc k = n" by simp
    then show ?thesis using n by (simp add: th_def rh_def)
  qed
  have rh: "0 < rh k" if "k \<le> n" for k
    using rho [of k] rho [of 0] n by (simp add: rh_def)
  have g: "0 < th (Suc k) - th k \<and> th (Suc k) - th k < pi" if "k < n" for k
  proof (cases "Suc k < n")
    case True
    with gap [OF True] show ?thesis by (simp add: th_def)
  next
    case False
    with that have "Suc k = n" by simp
    then have "k = n - 1" "\<not> Suc k < n" "k < n" by simp_all
    with wrap show ?thesis by (simp add: th_def)
  qed
  have w: "th n = th 0 + 2 * pi" using n by (simp add: th_def)
  have meet: "(i = j \<and> s = t) \<or> (Suc i = j \<and> s = 1 \<and> t = 0) \<or> (i = 0 \<and> Suc j = n \<and> s = 0 \<and> t = 1)"
    if "i \<le> j" "j < n" "0 \<le> s" "s \<le> 1" "0 \<le> t" "t \<le> 1"
      "segmentPoint (?ps ! i) (?ps ! (Suc i mod n)) s = segmentPoint (?ps ! j) (?ps ! (Suc j mod n)) t"
    for i j s t
  proof -
    have i: "i < n" using that(1,2) by simp
    from that(7) have
      "(1 - s) * (cos (th i) * rh i) + s * (cos (th (Suc i)) * rh (Suc i))
        = (1 - t) * (cos (th j) * rh j) + t * (cos (th (Suc j)) * rh (Suc j))"
      "(1 - s) * (sin (th i) * rh i) + s * (sin (th (Suc i)) * rh (Suc i))
        = (1 - t) * (sin (th j) * rh j) + t * (sin (th (Suc j)) * rh (Suc j))"
      unfolding pt [OF i] pt [OF that(2)] nx [OF i] nx [OF that(2)]
      by (simp_all add: segmentPoint_def)
    from ring_meeting_points [of n rh th i j s t, OF rh _ _ w that(1-6) this] g
    show ?thesis by blast
  qed
  show ?thesis
    unfolding simplePolygon_def len
  proof (intro allI impI)
    fix i j s t
    assume i: "i < n" and j: "j < n"
      and h: "0 \<le> s \<and> s \<le> 1 \<and> 0 \<le> t \<and> t \<le> 1
        \<and> segmentPoint (?ps ! i) (?ps ! (Suc i mod n)) s = segmentPoint (?ps ! j) (?ps ! (Suc j mod n)) t"
    show "(i = j \<and> s = t) \<or> (Suc i mod n = j \<and> s = 1 \<and> t = 0) \<or> (Suc j mod n = i \<and> t = 1 \<and> s = 0)"
    proof (cases "i \<le> j")
      case True
      from meet [OF True j] h
      have "(i = j \<and> s = t) \<or> (Suc i = j \<and> s = 1 \<and> t = 0) \<or> (i = 0 \<and> Suc j = n \<and> s = 0 \<and> t = 1)"
        by blast
      then show ?thesis using j by auto
    next
      case False
      then have ji: "j \<le> i" by simp
      from h have "segmentPoint (?ps ! j) (?ps ! (Suc j mod n)) t = segmentPoint (?ps ! i) (?ps ! (Suc i mod n)) s"
        by simp
      from meet [OF ji i _ _ _ _ this] h
      have "(j = i \<and> t = s) \<or> (Suc j = i \<and> t = 1 \<and> s = 0) \<or> (j = 0 \<and> Suc i = n \<and> t = 0 \<and> s = 1)"
        by blast
      then show ?thesis using i by auto
    qed
  qed
qed


lemma vertexRadius_range:
  assumes "0 < avgRadius"
  shows "avgRadius * (6 / 10) \<le> vertexRadius rnd pos avgRadius i"
    and "vertexRadius rnd pos avgRadius i \<le> avgRadius * (14 / 10)"
    and "0 < vertexRadius rnd pos avgRadius i"
proof -
  have le: "avgRadius * (1 - ASTEROID_JAGGEDNESS) \<le> avgRadius * (1 + ASTEROID_JAGGEDNESS)"
    using assms by (simp add: ASTEROID_JAGGEDNESS_def)
  from FloatBetween_range [OF le, of "rnd (pos + 2 * i + 1)"]
  show lo: "avgRadius * (6 / 10) \<le> vertexRadius rnd pos avgRadius i"
    and "vertexRadius rnd pos avgRadius i \<le> avgRadius * (14 / 10)"
    by (simp_all add: vertexRadius_def Let_def ASTEROID_JAGGEDNESS_def)
  have "0 < avgRadius * (6 / 10)" using assms by simp
  with lo show "0 < vertexRadius rnd pos avgRadius i" by linarith
qed

lemma vertexAngle_offset:
  assumes "0 < numVertices" "0 \<le> angleVariation"
  shows "\<bar>vertexAngle angleVariation rnd pos numVertices i - real i * angleStepOf numVertices\<bar>
         \<le> angleStepOf numVertices * angleVariation"
proof -
  have st: "0 < angleStepOf numVertices" using assms(1) by (simp add: angleStepOf_def)
  then have le: "- angleStepOf numVertices * angleVariation \<le> angleStepOf numVertices * angleVariation"
    using assms(2) by simp
  from FloatBetween_range [OF le, of "rnd (pos + 2 * i)"]
  show ?thesis by (simp add: vertexAngle_def Let_def abs_le_iff)
qed

lemma vertexAngle_gap:
  assumes nv: "4 < numVertices" and f: "0 \<le> angleVariation" "angleVariation < 1 / 2"
  shows "0 < vertexAngle angleVariation rnd pos numVertices (Suc k)
             - vertexAngle angleVariation rnd pos numVertices k"
    and "vertexAngle angleVariation rnd pos numVertices (Suc k)
             - vertexAngle angleVariation rnd pos numVertices k < pi"
    and "0 < vertexAngle angleVariation rnd pos numVertices 0 + 2 * pi
             - vertexAngle angleVariation rnd pos numVertices (nat numVertices - 1)"
    and "vertexAngle angleVariation rnd pos numVertices 0 + 2 * pi
             - vertexAngle angleVariation rnd pos numVertices (nat numVertices - 1) < pi"
proof -
  define st where "st = angleStepOf numVertices"
  define th where "th = vertexAngle angleVariation rnd pos numVertices"
  have pos: "0 < numVertices" using nv by simp
  have st: "0 < st" using pos by (simp add: st_def angleStepOf_def)
  have off: "- (st * angleVariation) \<le> th i - real i * st \<and> th i - real i * st \<le> st * angleVariation" for i
    using vertexAngle_offset [OF pos f(1), where rnd = rnd and pos = pos and i = i]
    unfolding th_def st_def abs_le_iff by linarith
  have w: "st * angleVariation < st * (1 / 2)" using st f(2) by (intro mult_strict_left_mono) simp_all
  have "real_of_int numVertices * st = 2 * pi"
    using pos by (simp add: st_def angleStepOf_def)
  moreover have "4 * st < real_of_int numVertices * st"
    using nv st by (intro mult_strict_right_mono) simp_all
  ultimately have small: "2 * st < pi" by linarith
  have full: "real (nat numVertices - 1) * st = 2 * pi - st"
  proof -
    have "real (nat numVertices - 1) = real_of_int numVertices - 1" using pos by simp
    then show ?thesis using \<open>real_of_int numVertices * st = 2 * pi\<close> by (simp add: algebra_simps)
  qed
  have sk: "real (Suc k) * st = real k * st + st" by (simp add: algebra_simps)
  have z: "real 0 * st = 0" by simp
  show "0 < th (Suc k) - th k" using off [of "Suc k"] off [of k] w unfolding sk by linarith
  show "th (Suc k) - th k < pi" using off [of "Suc k"] off [of k] w small unfolding sk by linarith
  show "0 < th 0 + 2 * pi - th (nat numVertices - 1)"
    using off [of 0] off [of "nat numVertices - 1"] w unfolding full z by linarith
  show "th 0 + 2 * pi - th (nat numVertices - 1) < pi"
    using off [of 0] off [of "nat numVertices - 1"] w small unfolding full z by linarith
qed

lemma distance_polar:
  assumes "0 \<le> r"
  shows "DistanceBetween (cos a * r) (sin a * r) 0 0 = r"
proof -
  have one: "cos a * cos a + sin a * sin a = 1"
    using sin_cos_squared_add2 [of a] by (simp add: power2_eq_square)
  have "cos a * r * (cos a * r) + sin a * r * (sin a * r)
        = (r * r) * (cos a * cos a) + (r * r) * (sin a * sin a)"
    by (simp only: ac_simps)
  also have "\<dots> = (r * r) * (cos a * cos a + sin a * sin a)"
    by (simp only: distrib_left)
  also have "\<dots> = r * r" by (simp only: one mult_1_right)
  finally show ?thesis using assms by (simp add: DistanceBetween_def Let_def)
qed


lemma generateAsteroidPointsWith_polar:
  "generateAsteroidPointsWith angleVariation rnd pos avgRadius numVertices
     = map (\<lambda>k. (cos (vertexAngle angleVariation rnd pos numVertices k)
                      * vertexRadius rnd pos avgRadius k,
                    sin (vertexAngle angleVariation rnd pos numVertices k)
                      * vertexRadius rnd pos avgRadius k))
           [0 ..< nat numVertices]"
  by (simp add: generateAsteroidPointsWith_def Let_def)

lemma generated_nth:
  assumes "i < nat numVertices"
  shows "generateAsteroidPointsWith angleVariation rnd pos avgRadius numVertices ! i
     = (cos (vertexAngle angleVariation rnd pos numVertices i) * vertexRadius rnd pos avgRadius i,
        sin (vertexAngle angleVariation rnd pos numVertices i) * vertexRadius rnd pos avgRadius i)"
  using assms by (simp add: generateAsteroidPointsWith_polar)

lemma generated_distance:
  assumes "0 < avgRadius" "i < nat numVertices"
  shows "DistanceBetween
           (fst (generateAsteroidPointsWith angleVariation rnd pos avgRadius numVertices ! i))
           (snd (generateAsteroidPointsWith angleVariation rnd pos avgRadius numVertices ! i)) 0 0
         = vertexRadius rnd pos avgRadius i"
proof -
  have "0 \<le> vertexRadius rnd pos avgRadius i"
    using vertexRadius_range(3) [OF assms(1), of rnd pos i] by simp
  then show ?thesis
    unfolding generated_nth [OF assms(2)] fst_conv snd_conv by (rule distance_polar)
qed

lemma generated_simple:
  assumes r: "0 < avgRadius" and nv: "4 < numVertices"
    and f: "0 \<le> angleVariation" "angleVariation < 1 / 2"
  shows "simplePolygon (generateAsteroidPointsWith angleVariation rnd pos avgRadius numVertices)"
  unfolding generateAsteroidPointsWith_polar
proof (rule simplePolygon_ring)
  show "0 < nat numVertices" using nv by simp
  show "0 < vertexRadius rnd pos avgRadius k" for k
    by (rule vertexRadius_range(3) [OF r])
  show "0 < vertexAngle angleVariation rnd pos numVertices (Suc k)
              - vertexAngle angleVariation rnd pos numVertices k
        \<and> vertexAngle angleVariation rnd pos numVertices (Suc k)
              - vertexAngle angleVariation rnd pos numVertices k < pi" for k
    using vertexAngle_gap(1,2) [OF nv f] by blast
  show "0 < vertexAngle angleVariation rnd pos numVertices 0 + 2 * pi
              - vertexAngle angleVariation rnd pos numVertices (nat numVertices - 1)"
    by (rule vertexAngle_gap(3) [OF nv f])
  show "vertexAngle angleVariation rnd pos numVertices 0 + 2 * pi
              - vertexAngle angleVariation rnd pos numVertices (nat numVertices - 1) < pi"
    by (rule vertexAngle_gap(4) [OF nv f])
qed

text \<open>
  Claim C6. For a positive average radius, a vertex count from 6 to 11 and an angular
  variation factor of at least 0 and below one half (the source uses 0.3; its other
  versions 0.2 and 0.15), the generator returns exactly \<open>numVertices\<close> points; each
  point lies at a distance from the origin between 0.6 and 1.4 times the average
  radius; point \<open>i\<close> lies in the direction of its angle \<open>vertexAngle \<dots> i\<close>, these
  angles increase strictly along the list and the last stays below the first plus a
  full turn; and the closed ring through the points in list order is a simple polygon:
  two edges meet only in the vertex that consecutive edges share.  Numbers are reals.
\<close>

theorem generated_outline_is_simple_polygon:
  assumes "0 < avgRadius" and "6 \<le> numVertices" and "numVertices \<le> 11"
    and "0 \<le> angleVariation" and "angleVariation < 1 / 2"
  shows "let ps = generateAsteroidPointsWith angleVariation rnd pos avgRadius numVertices;
             angle = vertexAngle angleVariation rnd pos numVertices;
             dist = (\<lambda>p. DistanceBetween (fst p) (snd p) 0 0)
         in length ps = nat numVertices
          \<and> (\<forall>i < length ps. avgRadius * (6 / 10) \<le> dist (ps ! i)
                                \<and> dist (ps ! i) \<le> avgRadius * (14 / 10))
          \<and> (\<forall>i < length ps. ps ! i = (cos (angle i) * dist (ps ! i),
                                           sin (angle i) * dist (ps ! i)))
          \<and> (\<forall>i. Suc i < length ps \<longrightarrow> angle i < angle (Suc i))
          \<and> angle (length ps - 1) < angle 0 + 2 * pi
          \<and> simplePolygon ps"
proof -
  have nv: "4 < numVertices" using assms(2) by simp
  note f = assms(4,5)
  define ps where "ps = generateAsteroidPointsWith angleVariation rnd pos avgRadius numVertices"
  have len: "length ps = nat numVertices"
    by (simp add: ps_def generateAsteroidPointsWith_polar)
  have dist: "DistanceBetween (fst (ps ! i)) (snd (ps ! i)) 0 0 = vertexRadius rnd pos avgRadius i"
    if "i < length ps" for i
  proof -
    from that have "i < nat numVertices" by (simp only: len)
    then show ?thesis unfolding ps_def by (rule generated_distance [OF assms(1)])
  qed
  have range: "avgRadius * (6 / 10) \<le> DistanceBetween (fst (ps ! i)) (snd (ps ! i)) 0 0
             \<and> DistanceBetween (fst (ps ! i)) (snd (ps ! i)) 0 0 \<le> avgRadius * (14 / 10)"
    if "i < length ps" for i
    unfolding dist [OF that] using vertexRadius_range(1,2) [OF assms(1)] by blast
  have dir: "ps ! i = (cos (vertexAngle angleVariation rnd pos numVertices i)
                         * DistanceBetween (fst (ps ! i)) (snd (ps ! i)) 0 0,
                       sin (vertexAngle angleVariation rnd pos numVertices i)
                         * DistanceBetween (fst (ps ! i)) (snd (ps ! i)) 0 0)"
    if "i < length ps" for i
  proof -
    have "ps ! i = (cos (vertexAngle angleVariation rnd pos numVertices i) * vertexRadius rnd pos avgRadius i,
        sin (vertexAngle angleVariation rnd pos numVertices i) * vertexRadius rnd pos avgRadius i)"
    proof -
      from that have "i < nat numVertices" by (simp only: len)
      then show ?thesis unfolding ps_def by (rule generated_nth)
    qed
    then show ?thesis unfolding dist [OF that] .
  qed
  have inc: "vertexAngle angleVariation rnd pos numVertices i
               < vertexAngle angleVariation rnd pos numVertices (Suc i)" for i
    using vertexAngle_gap(1) [OF nv f, of rnd pos i] by simp
  have turn: "vertexAngle angleVariation rnd pos numVertices (length ps - 1)
               < vertexAngle angleVariation rnd pos numVertices 0 + 2 * pi"
    unfolding len using vertexAngle_gap(3) [OF nv f, of rnd pos] by simp
  have simple: "simplePolygon ps"
    unfolding ps_def by (rule generated_simple [OF assms(1) nv f])
  from len range dir inc turn simple show ?thesis
    unfolding Let_def ps_def [symmetric] by blast
qed

theorem generated_outline_witness:
  "length (generateAsteroidPoints (\<lambda>n. midDraw) 0 20 9) = 9
   \<and> simplePolygon (generateAsteroidPoints (\<lambda>n. midDraw) 0 20 9)
   \<and> (0::real) < 20 \<and> (6::int) \<le> 9 \<and> (9::int) \<le> 11 \<and> (0::real) \<le> 3 / 10 \<and> (3::real) / 10 < 1 / 2"
  using generated_outline_is_simple_polygon [of 20 9 "3 / 10" "\<lambda>n. midDraw" 0]
  by (simp add: generateAsteroidPoints_def Let_def)

end
